theory Spec2Isabelle
  imports Main "HOL-Library.Word" "HOL-Library.Numeral_Type"
begin

unbundle bit_operations_syntax

section \<open>Byte vectors\<close>

text \<open>
  \<^verbatim>\<open>std::vector<unsigned char>\<close> is a list of 8-bit words. Constructing a vector from
  the iterator range \<^verbatim>\<open>[v.begin() + i, v.begin() + j)\<close> copies the bytes of the
  range; when the range ends behind \<^verbatim>\<open>v.end()\<close> the copy reads memory that does not
  belong to the vector, which C++ leaves undefined. The model makes that read a value
  of its own, \<open>OutOfBounds\<close>, so that it can be told apart from an ordinary
  \<^verbatim>\<open>return false\<close>.
\<close>

type_synonym byte = "8 word"

datatype fault = OutOfBounds

definition vector_range :: "byte list \<Rightarrow> nat \<Rightarrow> nat \<Rightarrow> fault + byte list" where
  "vector_range v i j =
     (if i \<le> j \<and> j \<le> length v
      then Inr (take (j - i) (drop i v))
      else Inl OutOfBounds)"

text \<open>\<open>be_bytes k n\<close> is the big-endian representation of \<open>n\<close> on exactly \<open>k\<close> bytes.\<close>

fun be_bytes :: "nat \<Rightarrow> nat \<Rightarrow> byte list" where
  "be_bytes 0 n = []"
| "be_bytes (Suc k) n = of_nat (n div 256 ^ k) # be_bytes k (n mod 256 ^ k)"

section \<open>DER length fields (key.cpp, ParseLength and EncodeLength)\<close>

text \<open>
  The iterator pair \<^verbatim>\<open>(begin, end)\<close> of \<^verbatim>\<open>ParseLength\<close> is the list of bytes from
  \<^verbatim>\<open>begin\<close> up to the end of the vector; \<^verbatim>\<open>it == end\<close> is the empty list. The loop
  first advances the iterator, then tests it against \<^verbatim>\<open>end\<close>, then reads: its
  argument \<open>rest\<close> is the range behind the byte read last. \<^verbatim>\<open>nLength\<close> is an
  \<^verbatim>\<open>int64\<close> that stays below \<open>2 ^ 39\<close> (it is at most \<^verbatim>\<open>0x7fffffff\<close> before every
  shift), so a natural number holds it without wrap-around. The result is
  \<open>None\<close> for \<^verbatim>\<open>return false\<close> and \<open>Some (nLengthRet, nLengthSizeRet)\<close> for
  \<^verbatim>\<open>return true\<close>.
\<close>

fun ParseLength_loop :: "nat \<Rightarrow> byte list \<Rightarrow> nat \<Rightarrow> nat \<Rightarrow> (nat \<times> nat) option" where
  "ParseLength_loop 0 rest nLength nLengthSize = Some (nLength, nLengthSize)"
| "ParseLength_loop (Suc i) [] nLength nLengthSize = None"
| "ParseLength_loop (Suc i) (b # rest) nLength nLengthSize =
     (let nLength' = push_bit 8 nLength OR unat b
      in if nLength' > 0x7fffffff then None
         else ParseLength_loop i rest nLength' (nLengthSize + 1))"

definition ParseLength :: "byte list \<Rightarrow> (nat \<times> nat) option" where
  "ParseLength bytes =
     (case bytes of
        [] \<Rightarrow> None
      | b # rest \<Rightarrow>
          if b AND 0x80 = 0 then Some (unat b, 1)
          else let nLengthBytes = b AND 0x7f
               in if nLengthBytes > 8 then None
                  else ParseLength_loop (unat nLengthBytes) rest 0 1)"

definition EncodeLength :: "nat \<Rightarrow> byte list" where
  "EncodeLength nLength =
     (if nLength < 0x80 then [of_nat nLength]
      else [0x84,
            of_nat (drop_bit 24 nLength AND 0xff),
            of_nat (drop_bit 16 nLength AND 0xff),
            of_nat (drop_bit 8 nLength AND 0xff),
            of_nat (nLength AND 0xff)])"

section \<open>DER normalization (key.cpp, NormalizeSignature)\<close>

text \<open>
  \<^verbatim>\<open>NormalizeSignature\<close> returns a \<^verbatim>\<open>bool\<close> and rewrites its argument in place; the
  model returns both, the vector unchanged where the source returns \<^verbatim>\<open>false\<close> before
  it touches it. The two integer bodies are copied with the range constructor, with no
  test that the range lies inside the vector.
\<close>

definition NormalizeSignature :: "byte list \<Rightarrow> fault + (bool \<times> byte list)" where
  "NormalizeSignature vchSig =
     (if length vchSig < 2 \<or> vchSig ! 0 \<noteq> 0x30 then Inr (False, vchSig)
      else (case ParseLength (drop 1 vchSig) of
        None \<Rightarrow> Inr (False, vchSig)
      | Some (nTotalLength, nTotalLengthSize) \<Rightarrow>
         (let nRStart = 1 + nTotalLengthSize
          in if length vchSig < nRStart + 2 \<or> vchSig ! nRStart \<noteq> 0x02
             then Inr (False, vchSig)
             else (case ParseLength (drop (nRStart + 1) vchSig) of
               None \<Rightarrow> Inr (False, vchSig)
             | Some (nRLength, nRLengthSize) \<Rightarrow>
                (let nRDataStart = nRStart + 1 + nRLengthSize
                 in (case vector_range vchSig nRDataStart (nRDataStart + nRLength) of
                   Inl f \<Rightarrow> Inl f
                 | Inr R \<Rightarrow>
                    (let nSStart = nRStart + 1 + nRLengthSize + nRLength
                     in if length vchSig < nSStart + 2 \<or> vchSig ! nSStart \<noteq> 0x02
                        then Inr (False, vchSig)
                        else (case ParseLength (drop (nSStart + 1) vchSig) of
                          None \<Rightarrow> Inr (False, vchSig)
                        | Some (nSLength, nSLengthSize) \<Rightarrow>
                           (let nSDataStart = nSStart + 1 + nSLengthSize
                            in (case vector_range vchSig nSDataStart (nSDataStart + nSLength) of
                              Inl f \<Rightarrow> Inl f
                            | Inr S \<Rightarrow>
                               (let vchRLength = EncodeLength (length R);
                                    vchSLength = EncodeLength (length S);
                                    nTotalLength' = 1 + length vchRLength + length R
                                                  + 1 + length vchSLength + length S;
                                    vchTotalLength = EncodeLength nTotalLength'
                                in Inr (True,
                                        [0x30] @ vchTotalLength
                                        @ [0x02] @ vchRLength @ R
                                        @ [0x02] @ vchSLength @ S))))))))))))"

section \<open>DER verification (key.cpp, CKey::Verify)\<close>

text \<open>
  The three calls into the curve library, \<^verbatim>\<open>d2i_ECDSA_SIG\<close>, \<^verbatim>\<open>i2d_ECDSA_SIG\<close> and
  \<^verbatim>\<open>ECDSA_verify\<close>, are not code of this repository: they are parameters of the model.
  \<^verbatim>\<open>d2i_ECDSA_SIG\<close> returns \<open>None\<close> for a null pointer, \<^verbatim>\<open>i2d_ECDSA_SIG\<close> returns the
  length it reports together with the buffer it fills, \<^verbatim>\<open>ECDSA_verify\<close> returns its
  \<^verbatim>\<open>int\<close> (1 good, 0 bad, -1 error).
\<close>

record ('sig, 'hash, 'key) ecdsa_api =
  d2i_ECDSA_SIG :: "byte list \<Rightarrow> 'sig option"
  i2d_ECDSA_SIG :: "'sig \<Rightarrow> int \<times> byte list"
  ECDSA_verify :: "'hash \<Rightarrow> byte list \<Rightarrow> int \<Rightarrow> 'key \<Rightarrow> int"

definition Verify ::
  "('sig, 'hash, 'key) ecdsa_api \<Rightarrow> 'key \<Rightarrow> 'hash \<Rightarrow> byte list \<Rightarrow> fault + bool" where
  "Verify api pkey hash vchSigParam =
     (case NormalizeSignature vchSigParam of
        Inl f \<Rightarrow> Inl f
      | Inr (ok, vchSig) \<Rightarrow>
          if \<not> ok then Inr False
          else if vchSig = [] then Inr False
          else (case d2i_ECDSA_SIG api vchSig of
            None \<Rightarrow> Inr False
          | Some norm_sig \<Rightarrow>
             (let (derlen, norm_der) = i2d_ECDSA_SIG api norm_sig
              in if derlen \<le> 0 then Inr False
                 else Inr (ECDSA_verify api hash norm_der derlen pkey = 1))))"

section \<open>The minimal-length encoding that the normalization is compared with\<close>





section \<open>The curve library, as far as key.cpp uses it\<close>

text \<open>
  key.cpp calls OpenSSL for big numbers and for the elliptic curve. That library is not
  code of this repository; this section models the calls from their documented contracts.
  A \<^verbatim>\<open>BIGNUM\<close> that is never negative is a natural number. The failure returns of the
  library that stand for exhausted memory (\<^verbatim>\<open>BN_CTX_new\<close>, \<^verbatim>\<open>EC_POINT_new\<close>,
  \<^verbatim>\<open>EC_KEY_new_by_curve_name\<close>, \<^verbatim>\<open>BN_bin2bn\<close>, \<^verbatim>\<open>EC_POINT_mul\<close>, ...) are not modelled:
  these calls succeed. The failures that depend on the arguments are modelled: no point
  with the given x-coordinate, no inverse, an encoding that is not a point.
\<close>

definition BN_bin2bn :: "byte list \<Rightarrow> nat" where
  "BN_bin2bn s = foldl (\<lambda>a b. a * 256 + unat b) 0 s"

fun BN_num_bits :: "nat \<Rightarrow> nat" where
  "BN_num_bits a = (if a = 0 then 0 else Suc (BN_num_bits (a div 2)))"

definition BN_num_bytes :: "nat \<Rightarrow> nat" where
  "BN_num_bytes a = (BN_num_bits a + 7) div 8"

definition BN_bn2bin :: "nat \<Rightarrow> byte list" where
  "BN_bn2bin a = be_bytes (BN_num_bytes a) a"

definition BN_rshift :: "nat \<Rightarrow> nat \<Rightarrow> nat" where
  "BN_rshift a n = a div 2 ^ n"

definition BN_mod_sub :: "nat \<Rightarrow> nat \<Rightarrow> nat \<Rightarrow> nat" where
  "BN_mod_sub a b m = nat ((int a - int b) mod int m)"

definition BN_mod_mul :: "nat \<Rightarrow> nat \<Rightarrow> nat \<Rightarrow> nat" where
  "BN_mod_mul a b m = (a * b) mod m"

text \<open>
  The inverse modulo \<open>n\<close>, by the extended Euclidean algorithm (\<open>bezw\<close> returns the
  B\'ezout coefficients). \<^verbatim>\<open>BN_mod_inverse\<close> returns a null pointer when there is none.
\<close>

definition inv_mod :: "nat \<Rightarrow> nat \<Rightarrow> nat" where
  "inv_mod a n = nat (fst (bezw a n) mod int n)"

definition BN_mod_inverse :: "nat \<Rightarrow> nat \<Rightarrow> nat option" where
  "BN_mod_inverse a n = (if gcd a n = 1 then Some (inv_mod a n) else None)"

text \<open>
  An \<^verbatim>\<open>EC_GROUP\<close> over a prime field: its order, its field prime, the bit length of the
  prime (\<^verbatim>\<open>EC_GROUP_get_degree\<close>), the generator, the point at infinity, the group
  operations, \<^verbatim>\<open>EC_POINT_set_compressed_coordinates_GFp\<close> (\<open>None\<close> when no point has the
  x-coordinate), and the octet encodings of points in a conversion form
  (\<^verbatim>\<open>EC_POINT_point2oct\<close>, the empty string for its error return 0, and
  \<^verbatim>\<open>EC_POINT_oct2point\<close>). The curve is a parameter of the model: key.cpp always asks for
  \<^verbatim>\<open>NID_secp256k1\<close>, which is \<open>secp256k1\<close> below.
\<close>

type_synonym point_conversion_form = nat

definition POINT_CONVERSION_COMPRESSED :: point_conversion_form where
  "POINT_CONVERSION_COMPRESSED = 2"

definition POINT_CONVERSION_UNCOMPRESSED :: point_conversion_form where
  "POINT_CONVERSION_UNCOMPRESSED = 4"

record 'pt ec_group =
  grp_order :: nat
  grp_field :: nat
  grp_degree :: nat
  grp_generator :: 'pt
  grp_infinity :: 'pt
  grp_add :: "'pt \<Rightarrow> 'pt \<Rightarrow> 'pt"
  grp_neg :: "'pt \<Rightarrow> 'pt"
  grp_on_curve :: "'pt \<Rightarrow> bool"
  grp_decompress :: "nat \<Rightarrow> nat \<Rightarrow> 'pt option"
  grp_point2oct :: "point_conversion_form \<Rightarrow> 'pt \<Rightarrow> byte list"
  grp_oct2point :: "byte list \<Rightarrow> 'pt option"

text \<open>
  Scalar multiplication is repeated addition. \<^verbatim>\<open>EC_POINT_mul(group, r, n, q, m, ctx)\<close>
  computes \<open>n G + m q\<close>, where \<open>n\<close>, or \<open>q\<close> and \<open>m\<close>, may be null pointers.
\<close>

fun point_mul :: "'pt ec_group \<Rightarrow> nat \<Rightarrow> 'pt \<Rightarrow> 'pt" where
  "point_mul g 0 P = grp_infinity g"
| "point_mul g (Suc k) P = grp_add g P (point_mul g k P)"

definition EC_POINT_mul :: "'pt ec_group \<Rightarrow> nat option \<Rightarrow> ('pt \<times> nat) option \<Rightarrow> 'pt" where
  "EC_POINT_mul g n qm =
     (case (n, qm) of
        (None, None) \<Rightarrow> grp_infinity g
      | (Some n', None) \<Rightarrow> point_mul g n' (grp_generator g)
      | (None, Some (q, m)) \<Rightarrow> point_mul g m q
      | (Some n', Some (q, m)) \<Rightarrow>
          grp_add g (point_mul g n' (grp_generator g)) (point_mul g m q))"

text \<open>
  An \<^verbatim>\<open>EC_KEY\<close> holds an optional private scalar, an optional public point and the
  conversion form in which the public point is written. A new key has neither and the
  uncompressed form.
\<close>

record 'pt EC_KEY =
  priv_key :: "nat option"
  pub_key :: "'pt option"
  conv_form :: point_conversion_form

definition EC_KEY_new_by_curve_name :: "'pt EC_KEY" where
  "EC_KEY_new_by_curve_name =
     \<lparr>priv_key = None, pub_key = None, conv_form = POINT_CONVERSION_UNCOMPRESSED\<rparr>"

text \<open>
  \<^verbatim>\<open>o2i_ECPublicKey\<close> decodes a point into the key and takes the conversion form from the
  first octet with its lowest bit cleared; \<open>None\<close> is its null return.
\<close>

definition o2i_ECPublicKey :: "'pt ec_group \<Rightarrow> 'pt EC_KEY \<Rightarrow> byte list \<Rightarrow> 'pt EC_KEY option" where
  "o2i_ECPublicKey g eckey s =
     (case grp_oct2point g s of
        None \<Rightarrow> None
      | Some P \<Rightarrow> Some (eckey\<lparr>pub_key := Some P, conv_form := unat (hd s AND 0xfe)\<rparr>))"

text \<open>
  \<^verbatim>\<open>EC_KEY_check_key\<close>, by its contract: the key has a public point, which is not the
  point at infinity, lies on the curve and is annihilated by the order; a private
  scalar, when the key has one, is below the order and gives the public point.
\<close>

definition EC_KEY_check_key :: "'pt ec_group \<Rightarrow> 'pt EC_KEY \<Rightarrow> bool" where
  "EC_KEY_check_key g eckey =
     (case pub_key eckey of
        None \<Rightarrow> False
      | Some Q \<Rightarrow>
          if Q = grp_infinity g then False
          else if \<not> grp_on_curve g Q then False
          else if point_mul g (grp_order g) Q \<noteq> grp_infinity g then False
          else (case priv_key eckey of
            None \<Rightarrow> True
          | Some d \<Rightarrow>
              if d \<ge> grp_order g then False
              else point_mul g d (grp_generator g) = Q))"

section \<open>secp256k1\<close>

text \<open>
  The group that \<^verbatim>\<open>EC_KEY_new_by_curve_name(NID_secp256k1)\<close> selects: the curve
  \<open>y\<^sup>2 = x\<^sup>3 + 7\<close> over the prime field of \<open>secp256k1_p\<close>, in affine coordinates, with the
  octet encodings of SEC1 (a 32-byte field element; \<^verbatim>\<open>02\<close>/\<^verbatim>\<open>03\<close> compressed, \<^verbatim>\<open>04\<close>
  uncompressed, \<^verbatim>\<open>06\<close>/\<^verbatim>\<open>07\<close> hybrid, \<^verbatim>\<open>00\<close> the point at infinity).
  \<^verbatim>\<open>EC_POINT_point2oct\<close> refuses a conversion form other than these three before it looks
  at the point.
\<close>

datatype point = Infinity | Affine nat nat

definition secp256k1_p :: nat where
  "secp256k1_p = 0xFFFFFFFFFFFFFFFFFFFFFFFFFFFFFFFFFFFFFFFFFFFFFFFFFFFFFFFEFFFFFC2F"

definition secp256k1_n :: nat where
  "secp256k1_n = 0xFFFFFFFFFFFFFFFFFFFFFFFFFFFFFFFEBAAEDCE6AF48A03BBFD25E8CD0364141"

definition secp256k1_G :: point where
  "secp256k1_G = Affine 0x79BE667EF9DCBBAC55A06295CE870B07029BFCDB2DCE28D959F2815B16F81798
                        0x483ADA7726A3C4655DA4FBFC0E1108A8FD17B448A68554199C47D08FFB10D4B8"

definition curve_on :: "nat \<Rightarrow> point \<Rightarrow> bool" where
  "curve_on p P =
     (case P of
        Infinity \<Rightarrow> True
      | Affine x y \<Rightarrow> x < p \<and> y < p \<and> (y * y) mod p = (x * x * x + 7) mod p)"

definition curve_neg :: "nat \<Rightarrow> point \<Rightarrow> point" where
  "curve_neg p P = (case P of Infinity \<Rightarrow> Infinity | Affine x y \<Rightarrow> Affine x ((p - y) mod p))"

definition curve_add :: "nat \<Rightarrow> point \<Rightarrow> point \<Rightarrow> point" where
  "curve_add p P Q =
     (case (P, Q) of
        (Infinity, _) \<Rightarrow> Q
      | (_, Infinity) \<Rightarrow> P
      | (Affine x1 y1, Affine x2 y2) \<Rightarrow>
          if x1 = x2 \<and> (y1 + y2) mod p = 0 then Infinity
          else
            (let l = (if x1 = x2 then 3 * x1 * x1 * inv_mod (2 * y1) p
                      else (y2 + p - y1) * inv_mod (x2 + p - x1) p) mod p;
                 x3 = (l * l + 2 * p - x1 - x2) mod p;
                 y3 = (l * (x1 + p - x3) + p - y1) mod p
             in Affine x3 y3))"

fun mod_pow :: "nat \<Rightarrow> nat \<Rightarrow> nat \<Rightarrow> nat" where
  "mod_pow b e m =
     (if e = 0 then 1 mod m
      else (let h = mod_pow b (e div 2) m; h2 = (h * h) mod m
            in if even e then h2 else (h2 * b) mod m))"

text \<open>The square root is the power \<open>(p + 1) / 4\<close>, as the prime is 3 modulo 4.\<close>

definition curve_decompress :: "nat \<Rightarrow> nat \<Rightarrow> nat \<Rightarrow> point option" where
  "curve_decompress p x y_bit =
     (let x' = x mod p;
          t = (x' * x' * x' + 7) mod p;
          y = mod_pow t ((p + 1) div 4) p
      in if (y * y) mod p \<noteq> t then None
         else if y = 0 \<and> y_bit \<noteq> 0 then None
         else Some (Affine x' (if odd y = (y_bit \<noteq> 0) then y else p - y)))"

definition curve_point2oct :: "point_conversion_form \<Rightarrow> point \<Rightarrow> byte list" where
  "curve_point2oct form P =
     (if form \<noteq> 2 \<and> form \<noteq> 4 \<and> form \<noteq> 6 then []
      else (case P of
        Infinity \<Rightarrow> [0x00]
      | Affine x y \<Rightarrow>
          if form = 2 then of_nat (2 + y mod 2) # be_bytes 32 x
          else if form = 4 then 0x04 # be_bytes 32 x @ be_bytes 32 y
          else of_nat (6 + y mod 2) # be_bytes 32 x @ be_bytes 32 y))"

definition curve_oct2point :: "nat \<Rightarrow> byte list \<Rightarrow> point option" where
  "curve_oct2point p s =
     (case s of
        [] \<Rightarrow> None
      | b # rest \<Rightarrow>
         (let form = unat (b AND 0xfe); y_bit = unat (b AND 0x01)
          in if form = 0 then (if y_bit = 0 \<and> rest = [] then Some Infinity else None)
             else if form = 2 then
               (if length rest = 32 \<and> BN_bin2bn rest < p
                then curve_decompress p (BN_bin2bn rest) y_bit else None)
             else if form = 4 \<or> form = 6 then
               (let x = BN_bin2bn (take 32 rest); y = BN_bin2bn (drop 32 rest)
                in if length rest = 64 \<and> (form = 4 \<longrightarrow> y_bit = 0)
                      \<and> (form = 6 \<longrightarrow> y_bit = y mod 2)
                      \<and> curve_on p (Affine x y)
                   then Some (Affine x y) else None)
             else None))"

definition secp256k1 :: "point ec_group" where
  "secp256k1 =
     \<lparr>grp_order = secp256k1_n, grp_field = secp256k1_p, grp_degree = 256,
      grp_generator = secp256k1_G, grp_infinity = Infinity,
      grp_add = curve_add secp256k1_p, grp_neg = curve_neg secp256k1_p,
      grp_on_curve = curve_on secp256k1_p,
      grp_decompress = curve_decompress secp256k1_p,
      grp_point2oct = curve_point2oct, grp_oct2point = curve_oct2point secp256k1_p\<rparr>"

section \<open>Keys (key.cpp, class CKey)\<close>

text \<open>
  A \<^verbatim>\<open>CKey\<close> owns an \<^verbatim>\<open>EC_KEY\<close> and two flags. A member function that changes the
  object takes the object and returns the new one beside its result; a function that can
  throw returns a sum whose left side is the \<^verbatim>\<open>key_error\<close>, and, when the object
  has been changed before the throw, the object as the throw leaves it. Reading through a
  null pointer and writing outside a vector, which C++ leaves undefined, are failures of
  their own.
\<close>

datatype key_failure = key_error string | NullPointerRead | OutOfBoundsWrite

record 'pt CKey =
  pkey :: "'pt EC_KEY"
  fSet :: bool
  fCompressedPubKey :: bool

definition vector_write :: "byte list \<Rightarrow> nat \<Rightarrow> byte list \<Rightarrow> key_failure + byte list" where
  "vector_write v off s =
     (if off + length s \<le> length v
      then Inr (take off v @ s @ drop (off + length s) v)
      else Inl OutOfBoundsWrite)"

text \<open>
  \<^verbatim>\<open>EC_KEY_regenerate_key\<close>: the public point is the scalar times the generator; the
  scalar is stored as it is given, whatever its value.
\<close>

definition EC_KEY_regenerate_key :: "'pt ec_group \<Rightarrow> 'pt EC_KEY \<Rightarrow> nat \<Rightarrow> int \<times> 'pt EC_KEY" where
  "EC_KEY_regenerate_key g eckey priv =
     (let pub = EC_POINT_mul g (Some priv) None
      in (1, eckey\<lparr>priv_key := Some priv, pub_key := Some pub\<rparr>))"

text \<open>
  \<^verbatim>\<open>ECDSA_SIG_recover_key_GFp\<close> returns its \<^verbatim>\<open>int\<close> (1 on success, 0 when the
  signature selects no point, -1 when \<^verbatim>\<open>BN_mod_inverse\<close> fails) and the key, whose public
  point it sets on success. The message is the byte string \<^verbatim>\<open>msg\<close> of length
  \<^verbatim>\<open>msglen\<close>; \<^verbatim>\<open>recid\<close> is never negative at its call sites.
\<close>

definition ECDSA_SIG_recover_key_GFp ::
  "'pt ec_group \<Rightarrow> 'pt EC_KEY \<Rightarrow> nat \<times> nat \<Rightarrow> byte list \<Rightarrow> nat \<Rightarrow> int \<Rightarrow> int \<times> 'pt EC_KEY" where
  "ECDSA_SIG_recover_key_GFp g eckey ecsig msg recid check =
     (let (sig_r, sig_s) = ecsig;
          msglen = length msg;
          i = recid div 2;
          order = grp_order g;
          x = order * i + sig_r;
          field = grp_field g
      in if x \<ge> field then (0, eckey)
         else (case grp_decompress g x (recid mod 2) of
           None \<Rightarrow> (0, eckey)
         | Some R \<Rightarrow>
             if check \<noteq> 0 \<and> EC_POINT_mul g None (Some (R, order)) \<noteq> grp_infinity g
             then (0, eckey)
             else
              (let n = grp_degree g;
                   e = BN_bin2bn msg;
                   e = (if 8 * msglen > n then BN_rshift e (8 - (n AND 7)) else e);
                   e = BN_mod_sub 0 e order
               in (case BN_mod_inverse sig_r order of
                 None \<Rightarrow> (-1, eckey)
               | Some rr \<Rightarrow>
                  (let sor = BN_mod_mul sig_s rr order;
                       eor = BN_mod_mul e rr order;
                       Q = EC_POINT_mul g (Some eor) (Some (R, sor))
                   in (1, eckey\<lparr>pub_key := Some Q\<rparr>))))))"

text \<open>
  \<^verbatim>\<open>SetCompressedPubKey\<close> sets the flag to \<^verbatim>\<open>true\<close> whatever its argument is. Every call
  in key.cpp leaves the argument out; its default is declared in key.h, which is not
  among the sources, and is taken to be \<^verbatim>\<open>true\<close>.
\<close>

definition SetCompressedPubKey :: "bool \<Rightarrow> 'pt CKey \<Rightarrow> 'pt CKey" where
  "SetCompressedPubKey fCompressed k =
     k\<lparr>pkey := (pkey k)\<lparr>conv_form :=
           (if fCompressed then POINT_CONVERSION_COMPRESSED else POINT_CONVERSION_UNCOMPRESSED)\<rparr>,
       fCompressedPubKey := True\<rparr>"

definition Reset :: "'pt CKey \<Rightarrow> 'pt CKey" where
  "Reset k = k\<lparr>fCompressedPubKey := False, pkey := EC_KEY_new_by_curve_name, fSet := False\<rparr>"

text \<open>The constructor \<^verbatim>\<open>CKey::CKey()\<close>.\<close>

definition CKey_new :: "'pt CKey" where
  "CKey_new = Reset \<lparr>pkey = EC_KEY_new_by_curve_name, fSet = False, fCompressedPubKey = False\<rparr>"

definition IsNull :: "'pt CKey \<Rightarrow> bool" where
  "IsNull k = (\<not> fSet k)"

definition IsCompressed :: "'pt CKey \<Rightarrow> bool" where
  "IsCompressed k = fCompressedPubKey k"

text \<open>
  \<^verbatim>\<open>MakeNewKey\<close>: the scalar that \<^verbatim>\<open>EC_KEY_generate_key\<close> draws is the argument \<open>d\<close>.
\<close>

definition MakeNewKey :: "'pt ec_group \<Rightarrow> nat \<Rightarrow> bool \<Rightarrow> 'pt CKey \<Rightarrow> 'pt CKey" where
  "MakeNewKey g d fCompressed k =
     (let k1 = k\<lparr>pkey := (pkey k)\<lparr>priv_key := Some d,
                                  pub_key := Some (point_mul g d (grp_generator g))\<rparr>\<rparr>;
          k2 = (if fCompressed then SetCompressedPubKey True k1 else k1)
      in k2\<lparr>fSet := True\<rparr>)"

definition SetSecret ::
  "'pt ec_group \<Rightarrow> byte list \<Rightarrow> bool \<Rightarrow> 'pt CKey \<Rightarrow> (key_failure + bool) \<times> 'pt CKey" where
  "SetSecret g vchSecret fCompressed k =
     (let k1 = k\<lparr>pkey := EC_KEY_new_by_curve_name\<rparr>
      in if length vchSecret \<noteq> 32
         then (Inl (key_error ''CKey::SetSecret() : secret must be 32 bytes''), k1)
         else
          (let bn = BN_bin2bn (take 32 vchSecret);
               (ok, eckey) = EC_KEY_regenerate_key g (pkey k1) bn
           in if ok = 0
              then (Inl (key_error ''CKey::SetSecret() : EC_KEY_regenerate_key failed''),
                    k1\<lparr>pkey := eckey\<rparr>)
              else
               (let k2 = k1\<lparr>pkey := eckey, fSet := True\<rparr>
                in (Inr True,
                    if fCompressed \<or> fCompressedPubKey k2
                    then SetCompressedPubKey True k2 else k2))))"

text \<open>
  \<^verbatim>\<open>GetSecret\<close> takes \<^verbatim>\<open>BN_num_bytes\<close> of the private scalar before it tests the pointer,
  and writes the scalar at index \<^verbatim>\<open>32 - nBytes\<close> of a vector of 32 zero bytes.
\<close>

definition GetSecret :: "'pt CKey \<Rightarrow> key_failure + (byte list \<times> bool)" where
  "GetSecret k =
     (let vchRet = replicate 32 (0 :: byte)
      in (case priv_key (pkey k) of
        None \<Rightarrow> Inl NullPointerRead
      | Some bn \<Rightarrow>
         (let nBytes = BN_num_bytes bn
          in if nBytes > 32 then Inl OutOfBoundsWrite
             else (case vector_write vchRet (32 - nBytes) (BN_bn2bin bn) of
               Inl f \<Rightarrow> Inl f
             | Inr vchRet' \<Rightarrow>
                 if length (BN_bn2bin bn) \<noteq> nBytes
                 then Inl (key_error ''CKey::GetSecret(): BN_bn2bin failed'')
                 else Inr (vchRet', fCompressedPubKey k)))))"

text \<open>
  \<^verbatim>\<open>GetPubKey\<close>: \<^verbatim>\<open>i2o_ECPublicKey\<close> writes the public point in the conversion form of the
  key and returns the length, 0 when there is nothing to write.
\<close>

definition i2o_ECPublicKey :: "'pt ec_group \<Rightarrow> 'pt EC_KEY \<Rightarrow> byte list" where
  "i2o_ECPublicKey g eckey =
     (case pub_key eckey of None \<Rightarrow> [] | Some P \<Rightarrow> grp_point2oct g (conv_form eckey) P)"

definition GetPubKey :: "'pt ec_group \<Rightarrow> 'pt CKey \<Rightarrow> key_failure + byte list" where
  "GetPubKey g k =
     (let nSize = length (i2o_ECPublicKey g (pkey k))
      in if nSize = 0 then Inl (key_error ''CKey::GetPubKey() : i2o_ECPublicKey failed'')
         else Inr (i2o_ECPublicKey g (pkey k)))"

definition SetPubKey :: "'pt ec_group \<Rightarrow> byte list \<Rightarrow> 'pt CKey \<Rightarrow> bool \<times> 'pt CKey" where
  "SetPubKey g vchPubKey k =
     (case o2i_ECPublicKey g (pkey k) vchPubKey of
        Some eckey \<Rightarrow>
         (let k1 = k\<lparr>pkey := eckey, fSet := True\<rparr>
          in (True, if length vchPubKey = 33 then SetCompressedPubKey True k1 else k1))
      | None \<Rightarrow> (False, Reset k))"

text \<open>
  \<^verbatim>\<open>SignCompact\<close>. The signature that \<^verbatim>\<open>ECDSA_do_sign\<close> returns is the argument \<open>sig\<close>
  (\<open>None\<close> for a null pointer): signing draws a random nonce, so the model takes its
  result as given. \<open>recid_test\<close> is the body of the loop for one \<open>i\<close>: a fresh key with the
  compression of this key, the recovery with \<^verbatim>\<open>check = 1\<close>, and the comparison of the two
  serialized public keys. \<open>recid_loop\<close> is the loop from \<open>i\<close> on; it returns \<^verbatim>\<open>nRecId\<close>.
\<close>

definition recid_test ::
  "'pt ec_group \<Rightarrow> 'pt CKey \<Rightarrow> nat \<times> nat \<Rightarrow> byte list \<Rightarrow> nat \<Rightarrow> key_failure + bool" where
  "recid_test g k ecsig hash i =
     (let keyRec = CKey_new\<lparr>fSet := True\<rparr>;
          keyRec = (if fCompressedPubKey k then SetCompressedPubKey True keyRec else keyRec);
          (ret, eckey) = ECDSA_SIG_recover_key_GFp g (pkey keyRec) ecsig hash i 1;
          keyRec = keyRec\<lparr>pkey := eckey\<rparr>
      in if ret = 1
         then (case GetPubKey g keyRec of
                 Inl e \<Rightarrow> Inl e
               | Inr rec_pub \<Rightarrow>
                  (case GetPubKey g k of
                     Inl e \<Rightarrow> Inl e
                   | Inr this_pub \<Rightarrow> Inr (rec_pub = this_pub)))
         else Inr False)"

function recid_loop ::
  "'pt ec_group \<Rightarrow> 'pt CKey \<Rightarrow> nat \<times> nat \<Rightarrow> byte list \<Rightarrow> nat \<Rightarrow> key_failure + int" where
  "recid_loop g k ecsig hash i =
     (if i < 4
      then (case recid_test g k ecsig hash i of
              Inl e \<Rightarrow> Inl e
            | Inr found \<Rightarrow> if found then Inr (int i) else recid_loop g k ecsig hash (i + 1))
      else Inr (- 1))"
  by pat_completeness auto
termination
  by (relation "measure (\<lambda>(g, k, ecsig, hash, i). 4 - i)") auto

declare recid_loop.simps [simp del]

definition SignCompact ::
  "'pt ec_group \<Rightarrow> (nat \<times> nat) option \<Rightarrow> byte list \<Rightarrow> byte list \<Rightarrow> 'pt CKey
    \<Rightarrow> key_failure + (bool \<times> byte list)" where
  "SignCompact g sig hash vchSig k =
     (case sig of
        None \<Rightarrow> Inr (False, vchSig)
      | Some (sig_r, sig_s) \<Rightarrow>
         (let vchSig1 = replicate 65 (0 :: byte);
              nBitsR = BN_num_bits sig_r;
              nBitsS = BN_num_bits sig_s
          in if nBitsR \<le> 256 \<and> nBitsS \<le> 256
             then (case recid_loop g k (sig_r, sig_s) hash 0 of
               Inl e \<Rightarrow> Inl e
             | Inr nRecId \<Rightarrow>
                 if nRecId = - 1
                 then Inl (key_error ''CKey::SignCompact() : unable to construct recoverable key'')
                 else
                  (let vchSig2 = vchSig1[0 := of_int (nRecId + 27 + (if fCompressedPubKey k then 4 else 0))]
                   in (case vector_write vchSig2 (33 - (nBitsR + 7) div 8) (BN_bn2bin sig_r) of
                     Inl f \<Rightarrow> Inl f
                   | Inr vchSig3 \<Rightarrow>
                      (case vector_write vchSig3 (65 - (nBitsS + 7) div 8) (BN_bn2bin sig_s) of
                         Inl f \<Rightarrow> Inl f
                       | Inr vchSig4 \<Rightarrow> Inr (True, vchSig4)))))
             else Inr (False, vchSig1)))"

definition SetCompactSignature ::
  "'pt ec_group \<Rightarrow> byte list \<Rightarrow> byte list \<Rightarrow> 'pt CKey \<Rightarrow> bool \<times> 'pt CKey" where
  "SetCompactSignature g hash vchSig k =
     (if length vchSig \<noteq> 65 then (False, k)
      else
       (let nV = int (unat (vchSig ! 0))
        in if nV < 27 \<or> nV \<ge> 35 then (False, k)
           else
            (let sig_r = BN_bin2bn (take 32 (drop 1 vchSig));
                 sig_s = BN_bin2bn (take 32 (drop 33 vchSig));
                 k1 = k\<lparr>pkey := EC_KEY_new_by_curve_name\<rparr>;
                 (k2, nV') = (if nV \<ge> 31 then (SetCompressedPubKey True k1, nV - 4) else (k1, nV));
                 (ret, eckey) = ECDSA_SIG_recover_key_GFp g (pkey k2) (sig_r, sig_s) hash
                                  (nat (nV' - 27)) 0;
                 k3 = k2\<lparr>pkey := eckey\<rparr>
             in if ret = 1 then (True, k3\<lparr>fSet := True\<rparr>) else (False, k3))))"

definition VerifyCompact ::
  "'pt ec_group \<Rightarrow> 'pt CKey \<Rightarrow> byte list \<Rightarrow> byte list \<Rightarrow> key_failure + bool" where
  "VerifyCompact g k hash vchSig =
     (let (ok, key) = SetCompactSignature g hash vchSig CKey_new
      in if \<not> ok then Inr False
         else (case GetPubKey g k of
           Inl e \<Rightarrow> Inl e
         | Inr this_pub \<Rightarrow>
            (case GetPubKey g key of
               Inl e \<Rightarrow> Inl e
             | Inr key_pub \<Rightarrow> if this_pub \<noteq> key_pub then Inr False else Inr True)))"

text \<open>
  \<^verbatim>\<open>IsValid\<close>: the key is set, passes \<^verbatim>\<open>EC_KEY_check_key\<close>, and a second key made from
  its secret has the same public key bytes. \<^verbatim>\<open>key2\<close> is a new \<^verbatim>\<open>CKey\<close>; the
  \<^verbatim>\<open>bool\<close> that \<^verbatim>\<open>SetSecret\<close> returns is not looked at.
\<close>

definition IsValid :: "'pt ec_group \<Rightarrow> 'pt CKey \<Rightarrow> key_failure + bool" where
  "IsValid g k =
     (if \<not> fSet k then Inr False
      else if \<not> EC_KEY_check_key g (pkey k) then Inr False
      else (case GetSecret k of
        Inl f \<Rightarrow> Inl f
      | Inr (secret, fCompr) \<Rightarrow>
         (case SetSecret g secret fCompr CKey_new of
            (Inl f, key2) \<Rightarrow> Inl f
          | (Inr ok, key2) \<Rightarrow>
             (case GetPubKey g k of
                Inl f \<Rightarrow> Inl f
              | Inr this_pub \<Rightarrow>
                 (case GetPubKey g key2 of
                    Inl f \<Rightarrow> Inl f
                  | Inr key2_pub \<Rightarrow> Inr (this_pub = key2_pub))))))"

section \<open>What the specification says, for comparison with the code\<close>

text \<open>
  The laws of the curve library that the algebra of the recovery needs: the points on the
  curve form a commutative group under the addition, the generator is annihilated by the
  group order, decompression yields points on the curve, and the order is a prime (every
  positive number below it is coprime to it). Nothing is said of the order of a point
  other than the generator: the curve may have a cofactor. The laws hold for secp256k1;
  the theorems that need them take them as a hypothesis on the group.
\<close>

definition ec_group_laws :: "'pt ec_group \<Rightarrow> bool" where
  "ec_group_laws g \<longleftrightarrow>
     grp_on_curve g (grp_infinity g) \<and> grp_on_curve g (grp_generator g)
     \<and> (\<forall>P Q. grp_on_curve g P \<and> grp_on_curve g Q \<longrightarrow> grp_on_curve g (grp_add g P Q))
     \<and> (\<forall>P. grp_on_curve g P \<longrightarrow> grp_on_curve g (grp_neg g P))
     \<and> (\<forall>P Q R. grp_on_curve g P \<and> grp_on_curve g Q \<and> grp_on_curve g R \<longrightarrow>
            grp_add g (grp_add g P Q) R = grp_add g P (grp_add g Q R))
     \<and> (\<forall>P Q. grp_on_curve g P \<and> grp_on_curve g Q \<longrightarrow> grp_add g P Q = grp_add g Q P)
     \<and> (\<forall>P. grp_on_curve g P \<longrightarrow> grp_add g (grp_infinity g) P = P)
     \<and> (\<forall>P. grp_on_curve g P \<longrightarrow> grp_add g (grp_neg g P) P = grp_infinity g)
     \<and> point_mul g (grp_order g) (grp_generator g) = grp_infinity g
     \<and> (\<forall>x b R. grp_decompress g x b = Some R \<longrightarrow> grp_on_curve g R)
     \<and> 1 < grp_order g
     \<and> (\<forall>r. 0 < r \<and> r < grp_order g \<longrightarrow> gcd r (grp_order g) = 1)"

text \<open>
  The digest as a number: the big-endian value of its bytes, cut down to its leftmost
  bits when it has more bits than the group.
\<close>

definition truncate_digest :: "nat \<Rightarrow> byte list \<Rightarrow> nat" where
  "truncate_digest degree msg =
     (if 8 * length msg > degree
      then BN_bin2bn msg div 2 ^ (8 * length msg - degree)
      else BN_bin2bn msg)"

text \<open>
  The recovery of SEC1 4.1.6 as the specification words it: the candidate x-coordinate
  \<open>x = r + (j div 2) n\<close>, rejected when \<open>x \<ge> p\<close>; the point \<open>R\<close> with that x-coordinate and
  y-parity \<open>j mod 2\<close>, rejected when there is none; with \<open>check\<close>, rejected unless \<open>n R\<close> is
  the point at infinity; the result \<open>Q = r\<^sup>-\<^sup>1 (s R - e G)\<close>.
\<close>

definition sec1_recover :: "'pt ec_group \<Rightarrow> nat \<Rightarrow> nat \<times> nat \<Rightarrow> nat \<Rightarrow> bool \<Rightarrow> 'pt option" where
  "sec1_recover g e sig j check =
     (let (r, s) = sig;
          n = grp_order g;
          x = r + (j div 2) * n
      in if x \<ge> grp_field g then None
         else (case grp_decompress g x (j mod 2) of
           None \<Rightarrow> None
         | Some R \<Rightarrow>
             if check \<and> point_mul g n R \<noteq> grp_infinity g then None
             else Some (point_mul g (inv_mod r n)
                          (grp_add g (point_mul g s R)
                             (grp_neg g (point_mul g e (grp_generator g)))))))"

text \<open>
  The compact signature of the specification: the header \<open>27 + id + (4 if compressed)\<close>,
  then \<open>r\<close> and \<open>s\<close> on 32 bytes each, big-endian. The recovery id is the first of 0, 1, 2, 3
  for which the recovery with \<open>check\<close> succeeds and yields the public key of the signer,
  written in the signer's compression.
\<close>

definition compact_signature :: "nat \<Rightarrow> bool \<Rightarrow> nat \<Rightarrow> nat \<Rightarrow> byte list" where
  "compact_signature recid compressed r s =
     of_nat (27 + recid + (if compressed then 4 else 0)) # be_bytes 32 r @ be_bytes 32 s"

definition recovers_own_key :: "'pt ec_group \<Rightarrow> 'pt CKey \<Rightarrow> nat \<times> nat \<Rightarrow> byte list \<Rightarrow> nat \<Rightarrow> bool" where
  "recovers_own_key g k sig hash recid =
     (let form = (if fCompressedPubKey k then POINT_CONVERSION_COMPRESSED
                  else POINT_CONVERSION_UNCOMPRESSED);
          (ret, eckey) = ECDSA_SIG_recover_key_GFp g
                           (EC_KEY_new_by_curve_name\<lparr>conv_form := form\<rparr>) sig hash recid 1
      in ret = 1 \<and> i2o_ECPublicKey g eckey = i2o_ECPublicKey g (pkey k))"

definition first_recid :: "'pt ec_group \<Rightarrow> 'pt CKey \<Rightarrow> nat \<times> nat \<Rightarrow> byte list \<Rightarrow> nat option" where
  "first_recid g k sig hash = find (recovers_own_key g k sig hash) [0, 1, 2, 3]"

text \<open>
  \<open>recoverCompact\<close> as the specification words it: the length is 65 and the header lies
  in 27..34, else \<open>None\<close>; \<open>compressed\<close> is \<open>header \<ge> 31\<close> and the recovery recid is
  \<open>(header - 27) mod 4\<close>; the recovery runs without the check; the result is the recovered
  point, with the compression that the header announces.
\<close>

definition recoverCompact :: "'pt ec_group \<Rightarrow> byte list \<Rightarrow> byte list \<Rightarrow> (bool \<times> 'pt) option" where
  "recoverCompact g digest bytes =
     (if length bytes \<noteq> 65 then None
      else
       (let header = unat (hd bytes)
        in if header < 27 \<or> 34 < header then None
           else
            (let compressed = (header \<ge> 31);
                 recid = (header - 27) mod 4;
                 r = BN_bin2bn (take 32 (drop 1 bytes));
                 s = BN_bin2bn (take 32 (drop 33 bytes));
                 (ret, eckey) = ECDSA_SIG_recover_key_GFp g EC_KEY_new_by_curve_name
                                  (r, s) digest recid 0
             in if ret = 1
                then (case pub_key eckey of None \<Rightarrow> None | Some Q \<Rightarrow> Some (compressed, Q))
                else None)))"

text \<open>
  An ECDSA signature of the digest number \<open>e\<close> under the private scalar \<open>d\<close>, as the
  standard makes it from a nonce \<open>k\<close> with \<open>0 < k < n\<close>: the point \<open>k G\<close> has the
  x-coordinate \<open>x\<close> and the y-parity \<open>b\<close> (decompressing them gives the point back);
  \<open>r = x mod n\<close> and \<open>s = k\<^sup>-\<^sup>1 (e + r d) mod n\<close>, neither of them zero.
\<close>

definition ecdsa_signature ::
  "'pt ec_group \<Rightarrow> nat \<Rightarrow> nat \<Rightarrow> nat \<Rightarrow> nat \<Rightarrow> nat \<Rightarrow> nat \<times> nat \<Rightarrow> bool" where
  "ecdsa_signature g d e k x b sig \<longleftrightarrow>
     (let (r, s) = sig;
          n = grp_order g
      in 0 < k \<and> k < n \<and> x < grp_field g \<and> b < 2
         \<and> grp_decompress g x b = Some (point_mul g k (grp_generator g))
         \<and> r = x mod n \<and> 0 < r
         \<and> s = (inv_mod k n * (e + r * d)) mod n \<and> 0 < s)"

section \<open>A curve with seven points\<close>

text \<open>
  The equation of secp256k1 over the field of 13 elements: \<open>y\<^sup>2 = x\<^sup>3 + 7\<close> has the six
  solutions (7,5), (8,5), (11,8), (11,5), (8,8), (7,8), which with the point at infinity
  form a group of the prime order 7 generated by (7,5); the list gives them as the
  multiples 1 G, ..., 6 G. A point is named by that multiple, so that the addition is the
  addition modulo 7. Field elements take one byte in the octet encodings. The instances
  of the theorems below are computed on this curve.
\<close>

definition curve13_xy :: "nat \<Rightarrow> nat \<times> nat" where
  "curve13_xy k = [(0, 0), (7, 5), (8, 5), (11, 8), (11, 5), (8, 8), (7, 8)] ! k"

definition curve13_point2oct :: "point_conversion_form \<Rightarrow> nat \<Rightarrow> byte list" where
  "curve13_point2oct form k =
     (let (x, y) = curve13_xy k
      in if form \<noteq> 2 \<and> form \<noteq> 4 \<and> form \<noteq> 6 then []
         else if k = 0 then [0x00]
         else if form = 2 then [of_nat (2 + y mod 2), of_nat x]
         else if form = 4 then [0x04, of_nat x, of_nat y]
         else [of_nat (6 + y mod 2), of_nat x, of_nat y])"

definition curve13 :: "nat ec_group" where
  "curve13 =
     \<lparr>grp_order = 7, grp_field = 13, grp_degree = 4,
      grp_generator = 1, grp_infinity = 0,
      grp_add = (\<lambda>a b. (a + b) mod 7), grp_neg = (\<lambda>a. (7 - a) mod 7),
      grp_on_curve = (\<lambda>a. a < 7),
      grp_decompress = (\<lambda>x y_bit.
         find (\<lambda>k. fst (curve13_xy k) = x mod 13 \<and> odd (snd (curve13_xy k)) = (y_bit \<noteq> 0))
           [1, 2, 3, 4, 5, 6]),
      grp_point2oct = curve13_point2oct,
      grp_oct2point = (\<lambda>s.
         find (\<lambda>k. s = curve13_point2oct 2 k \<or> s = curve13_point2oct 4 k
                    \<or> s = curve13_point2oct 6 k) [0, 1, 2, 3, 4, 5, 6])\<rparr>"


section \<open>A curve with a cofactor\<close>

text \<open>
  The same equation over the field of 31 elements has 20 solutions, which with the point
  at infinity form a cyclic group of 21 points generated by (1,15); the list gives the
  multiples of (1,15), and a point is named by that multiple, so that the addition is
  the addition modulo 21. The generator of the group record is the point 3, (27,6), of
  the prime order 7: the cofactor is 3, and the points that are not multiples of 3 are
  on the curve without being annihilated by the order.
\<close>

definition curve31_xy :: "nat \<Rightarrow> nat \<times> nat" where
  "curve31_xy k =
     [(0, 0), (1, 15), (7, 3), (27, 6), (5, 15), (25, 16), (24, 6), (0, 21), (4, 3),
      (11, 25), (20, 28), (20, 3), (11, 6), (4, 28), (0, 10), (24, 25), (25, 15),
      (5, 16), (27, 25), (7, 28), (1, 16)] ! k"

definition curve31_point2oct :: "point_conversion_form \<Rightarrow> nat \<Rightarrow> byte list" where
  "curve31_point2oct form k =
     (let (x, y) = curve31_xy k
      in if form \<noteq> 2 \<and> form \<noteq> 4 \<and> form \<noteq> 6 then []
         else if k = 0 then [0x00]
         else if form = 2 then [of_nat (2 + y mod 2), of_nat x]
         else if form = 4 then [0x04, of_nat x, of_nat y]
         else [of_nat (6 + y mod 2), of_nat x, of_nat y])"

definition curve31 :: "nat ec_group" where
  "curve31 =
     \<lparr>grp_order = 7, grp_field = 31, grp_degree = 5,
      grp_generator = 3, grp_infinity = 0,
      grp_add = (\<lambda>a b. (a + b) mod 21), grp_neg = (\<lambda>a. (21 - a) mod 21),
      grp_on_curve = (\<lambda>a. a < 21),
      grp_decompress = (\<lambda>x y_bit.
         find (\<lambda>k. fst (curve31_xy k) = x mod 31 \<and> odd (snd (curve31_xy k)) = (y_bit \<noteq> 0))
           [1, 2, 3, 4, 5, 6, 7, 8, 9, 10, 11, 12, 13, 14, 15, 16, 17, 18, 19, 20]),
      grp_point2oct = curve31_point2oct,
      grp_oct2point = (\<lambda>s.
         find (\<lambda>k. s = curve31_point2oct 2 k \<or> s = curve31_point2oct 4 k
                    \<or> s = curve31_point2oct 6 k)
           [0, 1, 2, 3, 4, 5, 6, 7, 8, 9, 10, 11, 12, 13, 14, 15, 16, 17, 18, 19, 20])\<rparr>"

section \<open>Properties of the DER normalization\<close>


lemma ParseLength_loop_numeral:
  "ParseLength_loop (numeral k) [] n s = None"
  "ParseLength_loop (numeral k) (b # rest) n s =
     (let n' = push_bit 8 n OR unat b
      in if n' > 0x7fffffff then None
         else ParseLength_loop (pred_numeral k) rest n' (s + 1))"
  by (subst numeral_eq_Suc, simp only: ParseLength_loop.simps)+


lemma be_bytes_numeral:
  "be_bytes (numeral k) n
     = of_nat (n div 256 ^ pred_numeral k) # be_bytes (pred_numeral k) (n mod 256 ^ pred_numeral k)"
  by (subst numeral_eq_Suc, simp only: be_bytes.simps)

lemma be_bytes_1: "be_bytes 1 n = [of_nat n]"
  by (simp only: One_nat_def be_bytes.simps) simp


lemma ParseLength_loop_append:
  "ParseLength_loop k rest n s = Some r \<Longrightarrow> ParseLength_loop k (rest @ t) n s = Some r"
  by (induction k rest n s rule: ParseLength_loop.induct) (auto simp: Let_def split: if_splits)

lemma ParseLength_append:
  "ParseLength bs = Some r \<Longrightarrow> ParseLength (bs @ t) = Some r"
  by (auto simp: ParseLength_def Let_def ParseLength_loop_append split: list.splits if_splits)

lemma NormalizeSignature_TrueE:
  assumes "NormalizeSignature v = Inr (True, out)"
  obtains nT zT nR zR nS zS where
    "2 \<le> length v" "v ! 0 = 0x30"
    "ParseLength (drop 1 v) = Some (nT, zT)"
    "zT + 3 \<le> length v" "v ! (1 + zT) = 0x02"
    "ParseLength (drop (zT + 2) v) = Some (nR, zR)"
    "zT + 2 + zR + nR \<le> length v"
    "zT + 2 + zR + nR + 2 \<le> length v" "v ! (zT + 2 + zR + nR) = 0x02"
    "ParseLength (drop (zT + 2 + zR + nR + 1) v) = Some (nS, zS)"
    "zT + 2 + zR + nR + 1 + zS + nS \<le> length v"
    "out = [0x30] @ EncodeLength (1 + length (EncodeLength nR) + nR + 1 + length (EncodeLength nS) + nS)
            @ [0x02] @ EncodeLength nR @ take nR (drop (zT + 2 + zR) v)
            @ [0x02] @ EncodeLength nS @ take nS (drop (zT + 2 + zR + nR + 1 + zS) v)"
  using assms
  by (simp add: NormalizeSignature_def Let_def vector_range_def
        split: if_splits option.splits sum.splits prod.splits)

lemma NormalizeSignature_TrueI:
  assumes "2 \<le> length v" "v ! 0 = 0x30"
    "ParseLength (drop 1 v) = Some (nT, zT)"
    "zT + 3 \<le> length v" "v ! (1 + zT) = 0x02"
    "ParseLength (drop (zT + 2) v) = Some (nR, zR)"
    "zT + 2 + zR + nR \<le> length v"
    "zT + 2 + zR + nR + 2 \<le> length v" "v ! (zT + 2 + zR + nR) = 0x02"
    "ParseLength (drop (zT + 2 + zR + nR + 1) v) = Some (nS, zS)"
    "zT + 2 + zR + nR + 1 + zS + nS \<le> length v"
  shows "NormalizeSignature v = Inr (True,
            [0x30] @ EncodeLength (1 + length (EncodeLength nR) + nR + 1 + length (EncodeLength nS) + nS)
            @ [0x02] @ EncodeLength nR @ take nR (drop (zT + 2 + zR) v)
            @ [0x02] @ EncodeLength nS @ take nS (drop (zT + 2 + zR + nR + 1 + zS) v))"
  using assms
  by (simp add: NormalizeSignature_def Let_def vector_range_def add_ac)

lemma NormalizeSignature_append:
  assumes "NormalizeSignature v = Inr (True, out)"
  shows "NormalizeSignature (v @ t) = Inr (True, out)"
proof -
  from assms obtain nT zT nR zR nS zS where f:
    "2 \<le> length v" "v ! 0 = 0x30"
    "ParseLength (drop 1 v) = Some (nT, zT)"
    "zT + 3 \<le> length v" "v ! (1 + zT) = 0x02"
    "ParseLength (drop (zT + 2) v) = Some (nR, zR)"
    "zT + 2 + zR + nR \<le> length v"
    "zT + 2 + zR + nR + 2 \<le> length v" "v ! (zT + 2 + zR + nR) = 0x02"
    "ParseLength (drop (zT + 2 + zR + nR + 1) v) = Some (nS, zS)"
    "zT + 2 + zR + nR + 1 + zS + nS \<le> length v"
    and out: "out = [0x30] @ EncodeLength (1 + length (EncodeLength nR) + nR + 1 + length (EncodeLength nS) + nS)
            @ [0x02] @ EncodeLength nR @ take nR (drop (zT + 2 + zR) v)
            @ [0x02] @ EncodeLength nS @ take nS (drop (zT + 2 + zR + nR + 1 + zS) v)"
    by (rule NormalizeSignature_TrueE)
  have "NormalizeSignature (v @ t) = Inr (True,
            [0x30] @ EncodeLength (1 + length (EncodeLength nR) + nR + 1 + length (EncodeLength nS) + nS)
            @ [0x02] @ EncodeLength nR @ take nR (drop (zT + 2 + zR) (v @ t))
            @ [0x02] @ EncodeLength nS @ take nS (drop (zT + 2 + zR + nR + 1 + zS) (v @ t)))"
    using f by (intro NormalizeSignature_TrueI [where nT = nT]) (auto simp: nth_append ParseLength_append)
  also have "\<dots> = Inr (True, out)"
    using f by (simp add: out)
  finally show ?thesis .
qed

lemma length_be_bytes: "length (be_bytes k n) = k"
  by (induction k arbitrary: n) simp_all

lemma unat_of_nat_byte: "n < 256 \<Longrightarrow> unat (of_nat n :: byte) = n"
  by (simp add: unat_of_nat)


























text \<open>
  Claim C1. The claim says that \<^verbatim>\<open>CKey::Verify\<close> is total on every byte vector and that
  the copies of the two integer bodies never read past the end of the input. The code
  does read past it: \<^verbatim>\<open>NormalizeSignature\<close> tests that the tag and the first length byte
  of each INTEGER lie inside the vector, but not that the body does. On
  \<^verbatim>\<open>30 03 02 7f 00\<close> the body of r is declared 127 bytes long with one byte present,
  and on \<^verbatim>\<open>30 06 02 01 01 02 7f\<close> the body of s is declared 127 bytes long with none
  present; both copies leave the vector, and so does \<^verbatim>\<open>Verify\<close>, whatever the library
  functions and the key are.
\<close>

theorem NormalizeSignature_reads_out_of_bounds:
  "NormalizeSignature [0x30, 0x03, 0x02, 0x7f, 0x00] = Inl OutOfBounds
   \<and> NormalizeSignature [0x30, 0x06, 0x02, 0x01, 0x01, 0x02, 0x7f] = Inl OutOfBounds
   \<and> Verify api k hash [0x30, 0x06, 0x02, 0x01, 0x01, 0x02, 0x7f] = Inl OutOfBounds"
  by (simp add: Verify_def NormalizeSignature_def ParseLength_def vector_range_def)




text \<open>
  Claim C10. \<^verbatim>\<open>NormalizeSignature\<close> never compares the announced lengths with the size
  of the vector, so on an input that it accepts, bytes appended behind the input change
  neither the normalized signature nor, therefore, the verdict of \<^verbatim>\<open>CKey::Verify\<close>, for
  every behaviour of the three library functions.
\<close>

theorem Verify_ignores_trailing_bytes:
  assumes "NormalizeSignature v = Inr (True, out)"
  shows "Verify api k hash (v @ t) = Verify api k hash v"
  using assms NormalizeSignature_append [OF assms, of t] by (simp add: Verify_def)

text \<open>
  An instance: the canonical signature of r = 5 and s = 7 followed by two more bytes,
  with library functions that pass the encoding through and accept it for the key that
  equals it.
\<close>

theorem Verify_ignores_trailing_bytes_witness:
  "NormalizeSignature [0x30, 0x06, 0x02, 0x01, 0x05, 0x02, 0x01, 0x07]
     = Inr (True, [0x30, 0x06, 0x02, 0x01, 0x05, 0x02, 0x01, 0x07])
   \<and> Verify \<lparr>d2i_ECDSA_SIG = \<lambda>der. Some der, i2d_ECDSA_SIG = \<lambda>sig. (int (length sig), sig),
              ECDSA_verify = \<lambda>hash der derlen k. if der = k then 1 else 0\<rparr>
        [0x30, 0x06, 0x02, 0x01, 0x05, 0x02, 0x01, 0x07] ()
        ([0x30, 0x06, 0x02, 0x01, 0x05, 0x02, 0x01, 0x07] @ [0xde, 0xad])
     = Inr True"
proof -
  have n: "NormalizeSignature [0x30, 0x06, 0x02, 0x01, 0x05, 0x02, 0x01, 0x07]
     = Inr (True, [0x30, 0x06, 0x02, 0x01, 0x05, 0x02, 0x01, 0x07])"
    by (simp add: NormalizeSignature_def ParseLength_def vector_range_def EncodeLength_def)
  show ?thesis
    unfolding Verify_ignores_trailing_bytes [OF n]
    by (simp add: n Verify_def)
qed


section \<open>Big numbers and their big-endian bytes\<close>

lemma BN_bin2bn_snoc: "BN_bin2bn (s @ [b]) = BN_bin2bn s * 256 + unat b"
  by (simp add: BN_bin2bn_def)

lemma BN_bin2bn_Nil: "BN_bin2bn [] = 0"
  by (simp add: BN_bin2bn_def)

lemma BN_bin2bn_append: "BN_bin2bn (s @ t) = BN_bin2bn s * 256 ^ length t + BN_bin2bn t"
proof (induction t rule: rev_induct)
  case Nil
  then show ?case by (simp add: BN_bin2bn_Nil)
next
  case (snoc b t)
  have "BN_bin2bn (s @ t @ [b]) = BN_bin2bn ((s @ t) @ [b])"
    by simp
  also have "\<dots> = BN_bin2bn (s @ t) * 256 + unat b"
    by (rule BN_bin2bn_snoc)
  finally show ?case
    by (simp add: snoc.IH BN_bin2bn_snoc algebra_simps)
qed

lemma BN_bin2bn_Cons: "BN_bin2bn (b # t) = unat b * 256 ^ length t + BN_bin2bn t"
  using BN_bin2bn_append [of "[b]" t] by (simp add: BN_bin2bn_def)

lemma BN_bin2bn_be_bytes: "n < 256 ^ k \<Longrightarrow> BN_bin2bn (be_bytes k n) = n"
proof (induction k arbitrary: n)
  case 0
  then show ?case by (simp add: BN_bin2bn_Nil)
next
  case (Suc k)
  have d: "n div 256 ^ k < 256"
    using Suc.prems by (simp add: less_mult_imp_div_less mult.commute)
  have "BN_bin2bn (be_bytes k (n mod 256 ^ k)) = n mod 256 ^ k"
    by (intro Suc.IH) simp
  then show ?case
    using d by (simp add: BN_bin2bn_Cons length_be_bytes unat_of_nat_byte div_mult_mod_eq)
qed

lemma BN_bin2bn_replicate_zero: "BN_bin2bn (replicate z 0) = 0"
  by (induction z) (simp_all add: BN_bin2bn_Nil BN_bin2bn_Cons)

lemma be_bytes_zero: "be_bytes k 0 = replicate k 0"
  by (induction k) simp_all

lemma be_bytes_pad: "n < 256 ^ j \<Longrightarrow> be_bytes (i + j) n = replicate i 0 @ be_bytes j n"
proof (induction i)
  case 0
  then show ?case by simp
next
  case (Suc i)
  have "n < 256 ^ (i + j)"
    using Suc.prems by (metis le_add2 less_le_trans one_le_numeral power_increasing)
  then show ?case
    using Suc by simp
qed

lemma BN_num_bits_le: "BN_num_bits a \<le> m \<longleftrightarrow> a < 2 ^ m"
proof (induction a arbitrary: m rule: BN_num_bits.induct)
  case (1 a)
  show ?case
  proof (cases "a = 0")
    case True
    then show ?thesis by simp
  next
    case False
    show ?thesis
    proof (cases m)
      case 0
      with False show ?thesis by simp
    next
      case (Suc m')
      have "BN_num_bits a \<le> Suc m' \<longleftrightarrow> BN_num_bits (a div 2) \<le> m'"
        using False by simp
      also have "\<dots> \<longleftrightarrow> a div 2 < 2 ^ m'"
        using False by (rule "1.IH")
      also have "\<dots> \<longleftrightarrow> a < 2 ^ Suc m'"
        by (simp add: less_mult_imp_div_less div_less_iff_less_mult mult.commute)
      finally show ?thesis
        using Suc by simp
    qed
  qed
qed

declare BN_num_bits.simps [simp del]

lemma BN_num_bytes_bound: "a < 256 ^ BN_num_bytes a"
proof -
  have "BN_num_bits a \<le> 8 * BN_num_bytes a"
    unfolding BN_num_bytes_def by arith
  then have "a < 2 ^ (8 * BN_num_bytes a)"
    by (simp only: BN_num_bits_le)
  then show ?thesis
    by (simp add: power_mult)
qed

lemma BN_num_bytes_le: "BN_num_bits a \<le> 8 * m \<Longrightarrow> BN_num_bytes a \<le> m"
  unfolding BN_num_bytes_def by arith

section \<open>Properties of the key operations\<close>

lemma BN_bn2bin_write:
  assumes "BN_num_bits a \<le> 256"
  shows "vector_write (pre @ replicate 32 0 @ post) (length pre + 32 - (BN_num_bits a + 7) div 8)
           (BN_bn2bin a) = Inr (pre @ be_bytes 32 a @ post)"
proof -
  define nb where "nb = BN_num_bytes a"
  have nb: "nb \<le> 32"
    unfolding nb_def using assms by (intro BN_num_bytes_le) simp
  have a: "a < 256 ^ nb"
    unfolding nb_def by (rule BN_num_bytes_bound)
  have "be_bytes ((32 - nb) + nb) a = replicate (32 - nb) 0 @ be_bytes nb a"
    using a by (rule be_bytes_pad)
  then have pad: "be_bytes 32 a = replicate (32 - nb) 0 @ be_bytes nb a"
    using nb by simp
  have "vector_write (pre @ replicate 32 0 @ post) (length pre + 32 - nb) (be_bytes nb a)
          = Inr (pre @ replicate (32 - nb) 0 @ be_bytes nb a @ post)"
    using nb by (simp add: vector_write_def length_be_bytes)
  then show ?thesis
    by (simp add: pad BN_bn2bin_def nb_def [symmetric] BN_num_bytes_def [symmetric])
qed

lemma GetSecret_value:
  assumes "priv_key (pkey k) = Some d" "d < 2 ^ 256"
  shows "GetSecret k = Inr (be_bytes 32 d, fCompressedPubKey k)"
proof -
  have bits: "BN_num_bits d \<le> 256"
    using assms(2) by (simp only: BN_num_bits_le)
  have "vector_write ([] @ replicate 32 0 @ []) (length ([] :: byte list) + 32 - (BN_num_bits d + 7) div 8)
           (BN_bn2bin d) = Inr ([] @ be_bytes 32 d @ [])"
    using bits by (rule BN_bn2bin_write)
  moreover have "BN_num_bytes d \<le> 32"
    using bits by (intro BN_num_bytes_le) simp
  ultimately show ?thesis
    using assms(1)
    by (simp add: GetSecret_def BN_num_bytes_def BN_bn2bin_def length_be_bytes)
qed

lemma SetSecret_value:
  assumes "length vchSecret = 32"
  shows "SetSecret g vchSecret fCompressed k =
     (Inr True,
      \<lparr>pkey = \<lparr>priv_key = Some (BN_bin2bn vchSecret),
               pub_key = Some (point_mul g (BN_bin2bn vchSecret) (grp_generator g)),
               conv_form = (if fCompressed \<or> fCompressedPubKey k
                            then POINT_CONVERSION_COMPRESSED else POINT_CONVERSION_UNCOMPRESSED)\<rparr>,
       fSet = True,
       fCompressedPubKey = (fCompressed \<or> fCompressedPubKey k)\<rparr>)"
  using assms
  by (cases k)
     (simp add: SetSecret_def EC_KEY_regenerate_key_def EC_POINT_mul_def
        EC_KEY_new_by_curve_name_def SetCompressedPubKey_def Let_def)

lemma point_mul_1: "point_mul g 1 P = grp_add g P (grp_infinity g)"
  by (simp only: One_nat_def point_mul.simps)

lemma EC_KEY_check_key_range:
  assumes "priv_key eckey = Some d" and "d = 0 \<or> grp_order g \<le> d"
    and "pub_key eckey = Some (point_mul g d (grp_generator g))"
  shows "\<not> EC_KEY_check_key g eckey"
  using assms by (auto simp: EC_KEY_check_key_def)

text \<open>
  Claim C2. The claim says that a secret whose value is 0 or at least the curve order
  is rejected. \<^verbatim>\<open>SetSecret\<close> and \<^verbatim>\<open>EC_KEY_regenerate_key\<close> compare the scalar with
  nothing: on secp256k1 the all-zero secret is accepted, the key is marked as set and
  holds the scalar 0 with the point at infinity as its public point; the secret whose
  value is the curve order is accepted likewise, and the key holds that scalar. In both
  cases the code's own \<^verbatim>\<open>IsValid\<close> then answers \<^verbatim>\<open>false\<close> for the key that \<^verbatim>\<open>SetSecret\<close>
  has just marked as set: the test \<^verbatim>\<open>EC_KEY_check_key\<close>, which the other import of a
  private key, \<^verbatim>\<open>SetPrivKey\<close>, runs before it sets \<^verbatim>\<open>fSet\<close>, is missing in
  \<^verbatim>\<open>SetSecret\<close>.
\<close>

theorem SetSecret_accepts_invalid_scalars:
  "SetSecret secp256k1 (replicate 32 0) False CKey_new =
     (Inr True,
      \<lparr>pkey = \<lparr>priv_key = Some 0, pub_key = Some Infinity,
               conv_form = POINT_CONVERSION_UNCOMPRESSED\<rparr>,
       fSet = True, fCompressedPubKey = False\<rparr>)
   \<and> IsValid secp256k1 (snd (SetSecret secp256k1 (replicate 32 0) False CKey_new)) = Inr False
   \<and> fst (SetSecret secp256k1 (be_bytes 32 secp256k1_n) False CKey_new) = Inr True
   \<and> fSet (snd (SetSecret secp256k1 (be_bytes 32 secp256k1_n) False CKey_new))
   \<and> priv_key (pkey (snd (SetSecret secp256k1 (be_bytes 32 secp256k1_n) False CKey_new)))
       = Some secp256k1_n
   \<and> IsValid secp256k1 (snd (SetSecret secp256k1 (be_bytes 32 secp256k1_n) False CKey_new))
       = Inr False"
proof -
  have "secp256k1_n < 256 ^ 32"
    by (simp add: secp256k1_n_def)
  then have n: "BN_bin2bn (be_bytes 32 secp256k1_n) = secp256k1_n"
    by (rule BN_bin2bn_be_bytes)
  have z: "replicate 32 0 = be_bytes 32 0" "BN_bin2bn (be_bytes 32 0) = 0"
    by (simp_all only: be_bytes_zero BN_bin2bn_replicate_zero)
  have o: "grp_order secp256k1 = secp256k1_n" "grp_infinity secp256k1 = Infinity"
    by (simp_all add: secp256k1_def)
  have s0: "SetSecret secp256k1 (be_bytes 32 0) False CKey_new =
     (Inr True,
      \<lparr>pkey = \<lparr>priv_key = Some 0, pub_key = Some Infinity,
               conv_form = POINT_CONVERSION_UNCOMPRESSED\<rparr>,
       fSet = True, fCompressedPubKey = False\<rparr>)"
    by (simp add: SetSecret_value length_be_bytes z(2) CKey_new_def Reset_def o)
  have sn: "SetSecret secp256k1 (be_bytes 32 secp256k1_n) False CKey_new =
     (Inr True,
      \<lparr>pkey = \<lparr>priv_key = Some secp256k1_n,
               pub_key = Some (point_mul secp256k1 secp256k1_n (grp_generator secp256k1)),
               conv_form = POINT_CONVERSION_UNCOMPRESSED\<rparr>,
       fSet = True, fCompressedPubKey = False\<rparr>)"
    by (simp add: SetSecret_value length_be_bytes n CKey_new_def Reset_def)
  have v0: "IsValid secp256k1 (snd (SetSecret secp256k1 (be_bytes 32 0) False CKey_new)) = Inr False"
    unfolding s0 by (simp add: IsValid_def EC_KEY_check_key_def o)
  have "\<not> EC_KEY_check_key secp256k1
            \<lparr>priv_key = Some secp256k1_n,
             pub_key = Some (point_mul secp256k1 secp256k1_n (grp_generator secp256k1)),
             conv_form = POINT_CONVERSION_UNCOMPRESSED\<rparr>"
    by (rule EC_KEY_check_key_range [where d = secp256k1_n]) (simp_all add: o)
  then have vn: "IsValid secp256k1 (snd (SetSecret secp256k1 (be_bytes 32 secp256k1_n) False CKey_new))
                 = Inr False"
    unfolding sn by (simp add: IsValid_def)
  show ?thesis
    unfolding z(1) using s0 v0 vn by (simp add: sn)
qed

text \<open>
  The same holds on every group and for every secret of 32 bytes whose value is 0 or at
  least the order: \<^verbatim>\<open>SetSecret\<close> returns \<^verbatim>\<open>true\<close> and marks the key as set, and
  \<^verbatim>\<open>IsValid\<close> answers \<^verbatim>\<open>false\<close> for that key.
\<close>

lemma SetSecret_out_of_range:
  assumes "length vchSecret = 32"
    and "BN_bin2bn vchSecret = 0 \<or> grp_order g \<le> BN_bin2bn vchSecret"
  shows "fst (SetSecret g vchSecret fCompressed k) = Inr True"
    and "fSet (snd (SetSecret g vchSecret fCompressed k))"
    and "IsValid g (snd (SetSecret g vchSecret fCompressed k)) = Inr False"
proof -
  let ?d = "BN_bin2bn vchSecret"
  let ?form = "if fCompressed \<or> fCompressedPubKey k
               then POINT_CONVERSION_COMPRESSED else POINT_CONVERSION_UNCOMPRESSED"
  have s: "SetSecret g vchSecret fCompressed k =
     (Inr True,
      \<lparr>pkey = \<lparr>priv_key = Some ?d, pub_key = Some (point_mul g ?d (grp_generator g)),
               conv_form = ?form\<rparr>,
       fSet = True, fCompressedPubKey = (fCompressed \<or> fCompressedPubKey k)\<rparr>)"
    using assms(1) by (rule SetSecret_value)
  show "fst (SetSecret g vchSecret fCompressed k) = Inr True"
    and "fSet (snd (SetSecret g vchSecret fCompressed k))"
    by (simp_all add: s)
  have "\<not> EC_KEY_check_key g
            \<lparr>priv_key = Some ?d, pub_key = Some (point_mul g ?d (grp_generator g)),
             conv_form = ?form\<rparr>"
    using assms(2) by (intro EC_KEY_check_key_range [where d = ?d]) simp_all
  then show "IsValid g (snd (SetSecret g vchSecret fCompressed k)) = Inr False"
    unfolding s by (simp add: IsValid_def)
qed

lemma replicate_numeral: "replicate (numeral n) x = x # replicate (pred_numeral n) x"
  by (simp add: numeral_eq_Suc)

text \<open>
  Claim C8. A key that holds a private scalar below \<open>2\<^sup>2\<^sup>5\<^sup>6\<close> gives its secret as the 32
  big-endian bytes of the scalar together with its compression flag; importing these
  into a key whose flag is not already set beyond that of the source (a new key, or the
  source itself) succeeds, and the imported key gives the same 32 bytes and the same flag.
\<close>

theorem GetSecret_SetSecret_roundtrip:
  assumes "priv_key (pkey kp) = Some d" and "d < 2 ^ 256"
    and "fCompressedPubKey k0 \<longrightarrow> fCompressedPubKey kp"
  shows "GetSecret kp = Inr (be_bytes 32 d, fCompressedPubKey kp)
    \<and> fst (SetSecret g (be_bytes 32 d) (fCompressedPubKey kp) k0) = Inr True
    \<and> GetSecret (snd (SetSecret g (be_bytes 32 d) (fCompressedPubKey kp) k0))
        = Inr (be_bytes 32 d, fCompressedPubKey kp)
    \<and> IsCompressed (snd (SetSecret g (be_bytes 32 d) (fCompressedPubKey kp) k0))
        = IsCompressed kp"
proof -
  have d: "d < 256 ^ 32"
    using assms(2) by simp
  have v: "BN_bin2bn (be_bytes 32 d) = d"
    using d by (rule BN_bin2bn_be_bytes)
  define k' where "k' = snd (SetSecret g (be_bytes 32 d) (fCompressedPubKey kp) k0)"
  have s: "SetSecret g (be_bytes 32 d) (fCompressedPubKey kp) k0 =
     (Inr True,
      \<lparr>pkey = \<lparr>priv_key = Some d,
               pub_key = Some (point_mul g d (grp_generator g)),
               conv_form = (if fCompressedPubKey kp \<or> fCompressedPubKey k0
                            then POINT_CONVERSION_COMPRESSED else POINT_CONVERSION_UNCOMPRESSED)\<rparr>,
       fSet = True,
       fCompressedPubKey = (fCompressedPubKey kp \<or> fCompressedPubKey k0)\<rparr>)"
    using SetSecret_value [of "be_bytes 32 d" g "fCompressedPubKey kp" k0]
    by (simp add: length_be_bytes v)
  have p: "priv_key (pkey k') = Some d" and c: "fCompressedPubKey k' = fCompressedPubKey kp"
    using assms(3) by (auto simp: k'_def s)
  have "GetSecret k' = Inr (be_bytes 32 d, fCompressedPubKey k')"
    using p assms(2) by (rule GetSecret_value)
  moreover have "GetSecret kp = Inr (be_bytes 32 d, fCompressedPubKey kp)"
    using assms(1,2) by (rule GetSecret_value)
  ultimately show ?thesis
    using c by (simp add: k'_def [symmetric] IsCompressed_def) (simp add: k'_def s)
qed

text \<open>
  An instance on secp256k1: a compressed key made from the scalar 5 by \<^verbatim>\<open>MakeNewKey\<close>,
  exported and imported into a new key.
\<close>

theorem GetSecret_SetSecret_roundtrip_witness:
  "GetSecret (MakeNewKey secp256k1 5 True CKey_new) = Inr (be_bytes 32 5, True)
   \<and> GetSecret (snd (SetSecret secp256k1 (be_bytes 32 5) True CKey_new)) = Inr (be_bytes 32 5, True)
   \<and> fst (SetSecret secp256k1 (be_bytes 32 5) True CKey_new) = Inr True"
proof -
  have k: "priv_key (pkey (MakeNewKey secp256k1 5 True CKey_new)) = Some 5"
    "fCompressedPubKey (MakeNewKey secp256k1 5 True CKey_new) = True"
    "fCompressedPubKey (CKey_new :: point CKey) = False"
    by (simp_all add: MakeNewKey_def SetCompressedPubKey_def CKey_new_def Reset_def)
  show ?thesis
    using GetSecret_SetSecret_roundtrip
      [of "MakeNewKey secp256k1 5 True CKey_new" 5 "CKey_new :: point CKey" secp256k1]
    by (simp add: k)
qed

text \<open>
  Claim C9. The claim says that a re-keying operation that fails leaves the key in the
  state of a new key. \<^verbatim>\<open>SetPubKey\<close> does (it calls \<^verbatim>\<open>Reset\<close>); \<^verbatim>\<open>SetCompactSignature\<close> and
  \<^verbatim>\<open>SetSecret\<close> do not. The key of the secret 1 on secp256k1, uncompressed, is given a
  compact signature with the header 31 and r = \<open>2\<^sup>2\<^sup>5\<^sup>6 - 1\<close>, which is not below the field
  prime: the call returns \<^verbatim>\<open>false\<close>, and the key is left marked as set and as
  compressed, with an \<^verbatim>\<open>EC_KEY\<close> that holds no key at all. The same key given a secret of
  31 bytes throws, and is left marked as set, again holding no key.
\<close>

theorem failed_rekeying_leaves_mixed_state:
  "SetCompactSignature secp256k1 hash (0x1f # replicate 64 0xff)
     \<lparr>pkey = \<lparr>priv_key = Some 1, pub_key = Some secp256k1_G,
              conv_form = POINT_CONVERSION_UNCOMPRESSED\<rparr>,
      fSet = True, fCompressedPubKey = False\<rparr>
   = (False,
      \<lparr>pkey = \<lparr>priv_key = None, pub_key = None, conv_form = POINT_CONVERSION_COMPRESSED\<rparr>,
       fSet = True, fCompressedPubKey = True\<rparr>)
   \<and> SetSecret secp256k1 (replicate 31 0x01) False
     \<lparr>pkey = \<lparr>priv_key = Some 1, pub_key = Some secp256k1_G,
              conv_form = POINT_CONVERSION_UNCOMPRESSED\<rparr>,
      fSet = True, fCompressedPubKey = False\<rparr>
   = (Inl (key_error ''CKey::SetSecret() : secret must be 32 bytes''),
      \<lparr>pkey = \<lparr>priv_key = None, pub_key = None, conv_form = POINT_CONVERSION_UNCOMPRESSED\<rparr>,
       fSet = True, fCompressedPubKey = False\<rparr>)"
proof -
  have "replicate 32 (0xff :: byte) = be_bytes 32 (2 ^ 256 - 1)"
    by (simp add: be_bytes_numeral be_bytes_1 replicate_numeral)
  moreover have "BN_bin2bn (be_bytes 32 (2 ^ 256 - 1)) = 2 ^ 256 - 1"
    by (rule BN_bin2bn_be_bytes) simp
  ultimately have r: "BN_bin2bn (replicate 32 (0xff :: byte)) = 2 ^ 256 - 1"
    by simp
  show ?thesis
    by (simp add: SetCompactSignature_def SetSecret_def ECDSA_SIG_recover_key_GFp_def r
          SetCompressedPubKey_def EC_KEY_new_by_curve_name_def secp256k1_def secp256k1_p_def Let_def)
qed

lemma SetPubKey_failure_resets:
  "grp_oct2point g vchPubKey = None \<Longrightarrow> SetPubKey g vchPubKey k = (False, CKey_new)"
  by (cases k) (simp add: SetPubKey_def o2i_ECPublicKey_def Reset_def CKey_new_def)

lemma recover_result:
  obtains (fail) ret where "ret \<noteq> 1"
      "\<And>eckey. ECDSA_SIG_recover_key_GFp g eckey ecsig msg recid check = (ret, eckey)"
  | (ok) Q where
      "\<And>eckey. ECDSA_SIG_recover_key_GFp g eckey ecsig msg recid check
                = (1, eckey\<lparr>pub_key := Some Q\<rparr>)"
proof (cases "fst (ECDSA_SIG_recover_key_GFp g EC_KEY_new_by_curve_name ecsig msg recid check) = 1")
  case True
  then obtain Q where
    "\<And>eckey. ECDSA_SIG_recover_key_GFp g eckey ecsig msg recid check
                = (1, eckey\<lparr>pub_key := Some Q\<rparr>)"
    by (cases ecsig)
       (auto simp: ECDSA_SIG_recover_key_GFp_def Let_def split: if_splits option.splits)
  then show ?thesis
    by (rule ok)
next
  case False
  then obtain ret where "ret \<noteq> 1"
      "\<And>eckey. ECDSA_SIG_recover_key_GFp g eckey ecsig msg recid check = (ret, eckey)"
    by (cases ecsig)
       (auto simp: ECDSA_SIG_recover_key_GFp_def Let_def split: if_splits option.splits)
  then show ?thesis
    by (rule fail)
qed

lemma recover_check:
  assumes "ECDSA_SIG_recover_key_GFp g eckey ecsig msg recid 1 = (1, eckey')"
  shows "ECDSA_SIG_recover_key_GFp g eckey ecsig msg recid 0 = (1, eckey')"
  using assms
  by (cases ecsig)
     (auto simp: ECDSA_SIG_recover_key_GFp_def Let_def split: if_splits option.splits)


lemma compact_recid:
  assumes "27 \<le> h" "h \<le> 34"
  shows "nat ((if 31 \<le> int h then int h - 4 else int h) - 27) = (h - 27) mod 4"
  using assms by (auto simp: nat_diff_distrib' mod_if)

lemma SetCompactSignature_spec:
  "SetCompactSignature g hash vchSig k =
     (case recoverCompact g hash vchSig of
        None \<Rightarrow> (False, snd (SetCompactSignature g hash vchSig k))
      | Some (compressed, Q) \<Rightarrow>
          (True,
           \<lparr>pkey = \<lparr>priv_key = None, pub_key = Some Q,
                    conv_form = (if compressed then POINT_CONVERSION_COMPRESSED
                                 else POINT_CONVERSION_UNCOMPRESSED)\<rparr>,
            fSet = True,
            fCompressedPubKey = (compressed \<or> fCompressedPubKey k)\<rparr>))"
proof (cases "length vchSig = 65 \<and> 27 \<le> unat (vchSig ! 0) \<and> unat (vchSig ! 0) \<le> 34")
  case False
  define h where "h = unat (vchSig ! 0)"
  show ?thesis
  proof (cases "length vchSig = 65")
    case False
    then show ?thesis
      by (simp add: SetCompactSignature_def recoverCompact_def)
  next
    case True
    then have "unat (hd vchSig) = h"
      by (cases vchSig) (simp_all add: h_def)
    moreover have "h < 27 \<or> 34 < h"
      using \<open>\<not> (length vchSig = 65 \<and> 27 \<le> unat (vchSig ! 0) \<and> unat (vchSig ! 0) \<le> 34)\<close> True
      by (auto simp: h_def)
    ultimately show ?thesis
      using True
      by (auto simp: SetCompactSignature_def recoverCompact_def Let_def h_def [symmetric])
  qed
next
  case True
  define h where "h = unat (vchSig ! 0)"
  define r where "r = BN_bin2bn (take 32 (drop (Suc 0) vchSig))"
  define s where "s = BN_bin2bn (drop 33 vchSig)"
  have h: "27 \<le> h" "h \<le> 34" and len: "length vchSig = 65"
    using True by (auto simp: h_def)
  have hd: "unat (hd vchSig) = h"
    using len by (cases vchSig) (simp_all add: h_def)
  have rid: "nat ((if 31 \<le> int h then int h - 4 else int h) - 27) = (h - 27) mod 4"
    using h by (rule compact_recid)
  show ?thesis
  proof (cases rule: recover_result [of g "(r, s)" hash "(h - 27) mod 4" 0])
    case (fail ret)
    then show ?thesis
      using h len hd rid
      by (cases k)
         (simp add: SetCompactSignature_def recoverCompact_def Let_def
            h_def [symmetric] r_def [symmetric] s_def [symmetric] split: if_splits)
  next
    case (ok Q)
    then show ?thesis
      using h len hd rid
      by (cases k)
         (simp add: SetCompactSignature_def recoverCompact_def Let_def
            h_def [symmetric] r_def [symmetric] s_def [symmetric]
            SetCompressedPubKey_def EC_KEY_new_by_curve_name_def split: if_splits)
  qed
qed

text \<open>
  Claim C6. \<^verbatim>\<open>SetCompactSignature\<close> returns \<^verbatim>\<open>true\<close> exactly when \<open>recoverCompact\<close>, the
  function of the specification, yields a point: not for a length other than 65 or a
  header outside 27..34; and then the key holds that point and nothing else, written in
  the compression that the header announces (\<open>header \<ge> 31\<close>), recovered with the id
  \<open>(header - 27) mod 4\<close> and without the order check.
\<close>

theorem SetCompactSignature_recoverCompact:
  "SetCompactSignature g hash vchSig k =
     (case recoverCompact g hash vchSig of
        None \<Rightarrow> (False, snd (SetCompactSignature g hash vchSig k))
      | Some (compressed, Q) \<Rightarrow>
          (True,
           \<lparr>pkey = \<lparr>priv_key = None, pub_key = Some Q,
                    conv_form = (if compressed then POINT_CONVERSION_COMPRESSED
                                 else POINT_CONVERSION_UNCOMPRESSED)\<rparr>,
            fSet = True,
            fCompressedPubKey = (compressed \<or> fCompressedPubKey k)\<rparr>))"
  by (rule SetCompactSignature_spec)

lemma point_mul_numeral:
  "point_mul g (numeral k) P = grp_add g P (point_mul g (pred_numeral k) P)"
  by (simp add: numeral_eq_Suc)

lemma inv_mod_1_7: "inv_mod 1 7 = 1"
  by code_simp

lemma inv_mod_4_7: "inv_mod 4 7 = 2"
  by code_simp

lemma gcd_7: "gcd (1::nat) 7 = 1" "gcd (4::nat) 7 = 1" "gcd (8::nat) 7 = 1"
  by code_simp+

lemma inv_mod_8_7: "inv_mod 8 7 = 1"
  by code_simp

lemma curve13_decompress:
  "grp_decompress curve13 8 1 = Some 2"
  "grp_decompress curve13 8 0 = Some 5"
  "grp_decompress curve13 1 0 = None"
  "grp_decompress curve13 1 1 = None"
  "grp_decompress curve13 11 0 = Some 3"
  by (simp_all add: curve13_def curve13_xy_def del: One_nat_def)

lemma curve13_recover_3:
  "ECDSA_SIG_recover_key_GFp curve13 eckey (1, 4) (be_bytes 32 0x50) 3 check
     = (1, eckey\<lparr>pub_key := Some 3\<rparr>)"
proof -
  have b: "BN_bin2bn (be_bytes 32 0x50) = 0x50"
    by (rule BN_bin2bn_be_bytes) simp
  have d: "grp_decompress curve13 8 1 = Some 2"
    by (rule curve13_decompress)
  have g: "grp_order curve13 = 7" "grp_field curve13 = 13" "grp_degree curve13 = 4"
    "grp_infinity curve13 = 0" "grp_generator curve13 = 1" "grp_add curve13 = (\<lambda>a b. (a + b) mod 7)"
    by (simp_all add: curve13_def)
  show ?thesis
    by (simp add: ECDSA_SIG_recover_key_GFp_def b d g length_be_bytes EC_POINT_mul_def
          point_mul_numeral point_mul_1 BN_rshift_def BN_mod_sub_def BN_mod_inverse_def
          BN_mod_mul_def inv_mod_1_7 gcd_7 Let_def del: One_nat_def)
qed


lemma recid_test_eq:
  assumes own: "GetPubKey g k = Inr pub"
    and enc: "\<And>P. grp_point2oct g (if fCompressedPubKey k then POINT_CONVERSION_COMPRESSED
                                       else POINT_CONVERSION_UNCOMPRESSED) P \<noteq> []"
  shows "recid_test g k ecsig hash i = Inr (recovers_own_key g k ecsig hash i)"
proof (cases rule: recover_result [of g ecsig hash i 1])
  case (fail ret)
  then show ?thesis
    by (simp add: recid_test_def recovers_own_key_def Let_def)
next
  case (ok Q)
  have pub: "i2o_ECPublicKey g (pkey k) = pub" "pub \<noteq> []"
    using own by (simp_all add: GetPubKey_def Let_def split: if_splits)
  have e1: "grp_point2oct g POINT_CONVERSION_COMPRESSED P \<noteq> []" if "fCompressedPubKey k" for P
    using enc [of P] that by simp
  have e2: "grp_point2oct g POINT_CONVERSION_UNCOMPRESSED P \<noteq> []" if "\<not> fCompressedPubKey k" for P
    using enc [of P] that by simp
  have rec_pub: "GetPubKey g \<lparr>pkey = \<lparr>priv_key = None, pub_key = Some Q, conv_form = f\<rparr>,
                               fSet = True, fCompressedPubKey = c\<rparr>
                 = Inr (grp_point2oct g f Q)" if "grp_point2oct g f Q \<noteq> []" for f c
    using that by (simp add: GetPubKey_def i2o_ECPublicKey_def)
  have own_pub: "i2o_ECPublicKey g \<lparr>priv_key = None, pub_key = Some Q, conv_form = f\<rparr>
                 = grp_point2oct g f Q" for f
    by (simp add: i2o_ECPublicKey_def)
  show ?thesis
    using own
    by (simp add: recid_test_def recovers_own_key_def Let_def ok SetCompressedPubKey_def
          CKey_new_def Reset_def EC_KEY_new_by_curve_name_def rec_pub own_pub pub e1 e2)
qed

lemma recid_loop_find:
  assumes own: "GetPubKey g k = Inr pub"
    and enc: "\<And>P. grp_point2oct g (if fCompressedPubKey k then POINT_CONVERSION_COMPRESSED
                                       else POINT_CONVERSION_UNCOMPRESSED) P \<noteq> []"
  shows "recid_loop g k ecsig hash 0
         = Inr (case first_recid g k ecsig hash of None \<Rightarrow> - 1 | Some i \<Rightarrow> int i)"
proof -
  have t: "recid_test g k ecsig hash i = Inr (recovers_own_key g k ecsig hash i)" for i
    using own enc by (rule recid_test_eq)
  have l4: "recid_loop g k ecsig hash 4 = Inr (- 1)"
    by (subst recid_loop.simps) simp
  have l3: "recid_loop g k ecsig hash 3
            = Inr (if recovers_own_key g k ecsig hash 3 then 3 else - 1)"
    by (subst recid_loop.simps) (simp add: t l4 del: One_nat_def)
  have l2: "recid_loop g k ecsig hash 2
            = Inr (if recovers_own_key g k ecsig hash 2 then 2
                   else if recovers_own_key g k ecsig hash 3 then 3 else - 1)"
    by (subst recid_loop.simps) (simp add: t l3 del: One_nat_def)
  have l1: "recid_loop g k ecsig hash 1
            = Inr (if recovers_own_key g k ecsig hash 1 then 1
                   else if recovers_own_key g k ecsig hash 2 then 2
                   else if recovers_own_key g k ecsig hash 3 then 3 else - 1)"
    by (subst recid_loop.simps) (simp add: t l2 del: One_nat_def)
  have l0: "recid_loop g k ecsig hash 0
            = Inr (if recovers_own_key g k ecsig hash 0 then 0
                   else if recovers_own_key g k ecsig hash 1 then 1
                   else if recovers_own_key g k ecsig hash 2 then 2
                   else if recovers_own_key g k ecsig hash 3 then 3 else - 1)"
    by (subst recid_loop.simps) (simp add: t l1 del: One_nat_def)
  have f: "first_recid g k ecsig hash
           = (if recovers_own_key g k ecsig hash 0 then Some 0
              else if recovers_own_key g k ecsig hash 1 then Some 1
              else if recovers_own_key g k ecsig hash 2 then Some 2
              else if recovers_own_key g k ecsig hash 3 then Some 3 else None)"
    by (simp add: first_recid_def)
  show ?thesis
    unfolding l0 f by (simp del: One_nat_def)
qed

lemma first_recid_less: "first_recid g k ecsig hash = Some i \<Longrightarrow> i < 4"
  by (auto simp: first_recid_def split: if_splits)

lemma compact_writes:
  assumes "BN_num_bits r \<le> 256" "BN_num_bits s \<le> 256"
  shows "vector_write ((replicate 65 0)[0 := hdr]) (33 - (BN_num_bits r + 7) div 8) (BN_bn2bin r)
           = Inr (hdr # be_bytes 32 r @ replicate 32 0)"
    and "vector_write (hdr # be_bytes 32 r @ replicate 32 0) (65 - (BN_num_bits s + 7) div 8)
           (BN_bn2bin s) = Inr (hdr # be_bytes 32 r @ be_bytes 32 s)"
proof -
  have v: "(replicate 65 0)[0 := hdr] = [hdr] @ replicate 32 0 @ replicate 32 (0 :: byte)"
    by (simp add: replicate_numeral replicate_add [symmetric])
  show "vector_write ((replicate 65 0)[0 := hdr]) (33 - (BN_num_bits r + 7) div 8) (BN_bn2bin r)
           = Inr (hdr # be_bytes 32 r @ replicate 32 0)"
    unfolding v using BN_bn2bin_write [OF assms(1), of "[hdr]" "replicate 32 0"] by simp
  show "vector_write (hdr # be_bytes 32 r @ replicate 32 0) (65 - (BN_num_bits s + 7) div 8)
           (BN_bn2bin s) = Inr (hdr # be_bytes 32 r @ be_bytes 32 s)"
    using BN_bn2bin_write [OF assms(2), of "[hdr] @ be_bytes 32 r" "[]"]
    by (simp add: length_be_bytes)
qed

lemma SignCompact_value:
  assumes own: "GetPubKey g k = Inr pub"
    and enc: "\<And>P. grp_point2oct g (if fCompressedPubKey k then POINT_CONVERSION_COMPRESSED
                                       else POINT_CONVERSION_UNCOMPRESSED) P \<noteq> []"
  shows "SignCompact g (Some (r, s)) hash v0 k =
     (if r < 2 ^ 256 \<and> s < 2 ^ 256
      then (case first_recid g k (r, s) hash of
              None \<Rightarrow> Inl (key_error ''CKey::SignCompact() : unable to construct recoverable key'')
            | Some recid \<Rightarrow> Inr (True, compact_signature recid (fCompressedPubKey k) r s))
      else Inr (False, replicate 65 0))"
proof -
  consider (r) "\<not> r < 2 ^ 256" | (s) "\<not> s < 2 ^ 256" | (small) "r < 2 ^ 256" "s < 2 ^ 256"
    by blast
  then show ?thesis
  proof cases
  case r
  then have "\<not> BN_num_bits r \<le> 256"
    by (simp only: BN_num_bits_le) simp
  with r show ?thesis
    by (simp add: SignCompact_def Let_def)
next
  case s
  then have "\<not> BN_num_bits s \<le> 256"
    by (simp only: BN_num_bits_le) simp
  with s show ?thesis
    by (simp add: SignCompact_def Let_def)
next
  case small
  then have True: "r < 2 ^ 256 \<and> s < 2 ^ 256"
    by simp
  have bits: "BN_num_bits r \<le> 256" "BN_num_bits s \<le> 256"
    using small by (simp_all only: BN_num_bits_le)
  have loop: "recid_loop g k (r, s) hash 0
         = Inr (case first_recid g k (r, s) hash of None \<Rightarrow> - 1 | Some i \<Rightarrow> int i)"
    using own enc by (rule recid_loop_find)
  show ?thesis
  proof (cases "first_recid g k (r, s) hash")
    case None
    then show ?thesis
      using True bits by (simp add: SignCompact_def Let_def loop)
  next
    case (Some i)
    have hdr: "(of_int (int i + 27 + (if fCompressedPubKey k then 4 else 0)) :: byte)
               = of_nat (27 + i + (if fCompressedPubKey k then 4 else 0))"
      by simp
    show ?thesis
      using True bits Some
      by (simp add: SignCompact_def Let_def loop compact_writes compact_signature_def hdr ac_simps)
  qed
qed
qed


lemma recid_loop_found:
  "recid_loop g k ecsig hash i = Inr n \<Longrightarrow> n \<noteq> - 1 \<Longrightarrow>
   \<exists>j. j < 4 \<and> n = int j \<and> recid_test g k ecsig hash j = Inr True"
proof (induction g k ecsig hash i rule: recid_loop.induct)
  case (1 g k ecsig hash i)
  show ?case
  proof (cases "i < 4")
    case False
    with "1.prems" show ?thesis
      by (subst (asm) recid_loop.simps) simp
  next
    case True
    show ?thesis
    proof (cases "recid_test g k ecsig hash i")
      case (Inl e)
      with True "1.prems" show ?thesis
        by (subst (asm) recid_loop.simps) simp
    next
      case (Inr found)
      show ?thesis
      proof (cases found)
        case True
        with \<open>i < 4\<close> Inr "1.prems" show ?thesis
          by (subst (asm) recid_loop.simps) auto
      next
        case False
        with \<open>i < 4\<close> Inr "1.prems" have "recid_loop g k ecsig hash (i + 1) = Inr n"
          by (subst (asm) recid_loop.simps) simp
        with \<open>i < 4\<close> Inr False "1.prems"(2) show ?thesis
          by (intro "1.IH") auto
      qed
    qed
  qed
qed

lemma recid_test_True:
  assumes "recid_test g k ecsig hash j = Inr True"
  obtains Q pub where
    "\<And>eckey. ECDSA_SIG_recover_key_GFp g eckey ecsig hash j 1 = (1, eckey\<lparr>pub_key := Some Q\<rparr>)"
    "GetPubKey g k = Inr pub"
    "grp_point2oct g (if fCompressedPubKey k then POINT_CONVERSION_COMPRESSED
                      else POINT_CONVERSION_UNCOMPRESSED) Q = pub"
proof (cases rule: recover_result [of g ecsig hash j 1])
  case (fail ret)
  with assms show ?thesis
    by (simp add: recid_test_def Let_def)
next
  case (ok Q)
  from assms obtain pub where own: "GetPubKey g k = Inr pub"
    by (cases "GetPubKey g k")
       (auto simp: recid_test_def Let_def ok split: sum.splits if_splits)
  have "grp_point2oct g (if fCompressedPubKey k then POINT_CONVERSION_COMPRESSED
                      else POINT_CONVERSION_UNCOMPRESSED) Q = pub"
    using assms own
    by (auto simp: recid_test_def Let_def ok GetPubKey_def [of g "_\<lparr>pkey := _\<rparr>"]
          i2o_ECPublicKey_def SetCompressedPubKey_def CKey_new_def Reset_def
          EC_KEY_new_by_curve_name_def split: sum.splits if_splits)
  with ok own show ?thesis
    by (rule that)
qed

lemma SetCompactSignature_compact:
  assumes j: "j < 4" and r: "r < 2 ^ 256" and s: "s < 2 ^ 256"
    and rec: "\<And>eckey. ECDSA_SIG_recover_key_GFp g eckey (r, s) hash j 0
                        = (1, eckey\<lparr>pub_key := Some Q\<rparr>)"
  shows "SetCompactSignature g hash (compact_signature j c r s) k0 =
     (True,
      \<lparr>pkey = \<lparr>priv_key = None, pub_key = Some Q,
               conv_form = (if c then POINT_CONVERSION_COMPRESSED
                            else POINT_CONVERSION_UNCOMPRESSED)\<rparr>,
       fSet = True,
       fCompressedPubKey = (c \<or> fCompressedPubKey k0)\<rparr>)"
proof -
  have rs: "BN_bin2bn (be_bytes 32 r) = r" "BN_bin2bn (be_bytes 32 s) = s"
    using r s by (simp_all add: BN_bin2bn_be_bytes)
  have h: "unat (31 + of_nat j :: byte) = 31 + j" "unat (27 + of_nat j :: byte) = 27 + j"
    using j unat_of_nat_byte [of "31 + j"] unat_of_nat_byte [of "27 + j"] by simp_all
  have h': "uint (31 + of_nat j :: byte) = 31 + int j" "uint (27 + of_nat j :: byte) = 27 + int j"
    using h by (simp_all add: uint_nat)
  show ?thesis
    using j
    by (cases k0)
       (simp add: SetCompactSignature_def compact_signature_def Let_def length_be_bytes
          h h' rs rec SetCompressedPubKey_def EC_KEY_new_by_curve_name_def)
qed

lemma curve13_sel:
  "grp_order curve13 = 7" "grp_field curve13 = 13" "grp_degree curve13 = 4"
  "grp_infinity curve13 = 0" "grp_generator curve13 = 1"
  "grp_add curve13 = (\<lambda>a b. (a + b) mod 7)" "grp_neg curve13 = (\<lambda>a. (7 - a) mod 7)"
  "grp_on_curve curve13 = (\<lambda>a. a < 7)" "grp_point2oct curve13 = curve13_point2oct"
  by (simp_all add: curve13_def)

lemma curve13_point2oct_nonempty:
  "grp_point2oct curve13 (if c then POINT_CONVERSION_COMPRESSED
                          else POINT_CONVERSION_UNCOMPRESSED) P \<noteq> []"
  by (simp add: curve13_sel curve13_point2oct_def POINT_CONVERSION_COMPRESSED_def
        POINT_CONVERSION_UNCOMPRESSED_def split: prod.splits)

lemma secp256k1_point2oct_nonempty:
  "grp_point2oct secp256k1 (if c then POINT_CONVERSION_COMPRESSED
                            else POINT_CONVERSION_UNCOMPRESSED) P \<noteq> []"
  by (cases P)
     (simp_all add: secp256k1_def curve_point2oct_def POINT_CONVERSION_COMPRESSED_def
        POINT_CONVERSION_UNCOMPRESSED_def)

lemma curve13_recover_sig:
  "ECDSA_SIG_recover_key_GFp curve13 eckey (1, 4) (be_bytes 32 0x50) 0 check = (0, eckey)"
  "ECDSA_SIG_recover_key_GFp curve13 eckey (1, 4) (be_bytes 32 0x50) 1 check = (0, eckey)"
  "ECDSA_SIG_recover_key_GFp curve13 eckey (1, 4) (be_bytes 32 0x50) 2 check
     = (1, eckey\<lparr>pub_key := Some 1\<rparr>)"
proof -
  have b: "BN_bin2bn (be_bytes 32 0x50) = 0x50"
    by (rule BN_bin2bn_be_bytes) simp
  show "ECDSA_SIG_recover_key_GFp curve13 eckey (1, 4) (be_bytes 32 0x50) 0 check = (0, eckey)"
    "ECDSA_SIG_recover_key_GFp curve13 eckey (1, 4) (be_bytes 32 0x50) 1 check = (0, eckey)"
    "ECDSA_SIG_recover_key_GFp curve13 eckey (1, 4) (be_bytes 32 0x50) 2 check
       = (1, eckey\<lparr>pub_key := Some 1\<rparr>)"
    by (simp_all add: ECDSA_SIG_recover_key_GFp_def b curve13_decompress curve13_sel
          length_be_bytes EC_POINT_mul_def point_mul_numeral point_mul_1 BN_rshift_def
          BN_mod_sub_def BN_mod_inverse_def BN_mod_mul_def inv_mod_1_7 gcd_7 Let_def
          del: One_nat_def)
qed

lemma curve13_key3:
  "MakeNewKey curve13 3 True CKey_new =
     \<lparr>pkey = \<lparr>priv_key = Some 3, pub_key = Some 3, conv_form = POINT_CONVERSION_COMPRESSED\<rparr>,
      fSet = True, fCompressedPubKey = True\<rparr>"
  "GetPubKey curve13
     \<lparr>pkey = \<lparr>priv_key = Some 3, pub_key = Some 3, conv_form = POINT_CONVERSION_COMPRESSED\<rparr>,
      fSet = True, fCompressedPubKey = True\<rparr> = Inr [0x02, 0x0b]"
  by (simp_all add: MakeNewKey_def CKey_new_def Reset_def SetCompressedPubKey_def
        EC_KEY_new_by_curve_name_def point_mul_numeral point_mul_1 curve13_sel
        GetPubKey_def i2o_ECPublicKey_def curve13_point2oct_def curve13_xy_def
        POINT_CONVERSION_COMPRESSED_def del: One_nat_def)

lemma curve13_first_recid:
  "first_recid curve13
     \<lparr>pkey = \<lparr>priv_key = Some 3, pub_key = Some 3, conv_form = POINT_CONVERSION_COMPRESSED\<rparr>,
      fSet = True, fCompressedPubKey = True\<rparr> (1, 4) (be_bytes 32 0x50) = Some 3"
  by (simp add: first_recid_def recovers_own_key_def curve13_recover_sig curve13_recover_3
        i2o_ECPublicKey_def curve13_sel curve13_point2oct_def curve13_xy_def
        EC_KEY_new_by_curve_name_def POINT_CONVERSION_COMPRESSED_def del: One_nat_def)

text \<open>
  Claim C5. For a key whose public key can be written, and a signature (r, s) that
  \<^verbatim>\<open>ECDSA_do_sign\<close> returns with r and s below \<open>2\<^sup>2\<^sup>5\<^sup>6\<close>, \<^verbatim>\<open>SignCompact\<close> returns the compact
  signature of the first recovery id among 0, 1, 2, 3 whose recovery with the check yields
  the public key of the signer: 65 bytes, the header \<open>27 + id + (4 if compressed)\<close>, then
  r and s on 32 bytes each; when no id does, it throws the \<^verbatim>\<open>key_error\<close>. (For a
  larger r or s it returns \<^verbatim>\<open>false\<close>.) The hypothesis on the encoding holds for every
  curve of the library: writing a point in the compressed or uncompressed form does not
  fail.
\<close>

theorem SignCompact_compact_signature:
  assumes "GetPubKey g k = Inr pub"
    and "\<forall>P. grp_point2oct g (if fCompressedPubKey k then POINT_CONVERSION_COMPRESSED
                               else POINT_CONVERSION_UNCOMPRESSED) P \<noteq> []"
  shows "SignCompact g (Some (r, s)) hash v0 k =
     (if r < 2 ^ 256 \<and> s < 2 ^ 256
      then (case first_recid g k (r, s) hash of
              None \<Rightarrow> Inl (key_error ''CKey::SignCompact() : unable to construct recoverable key'')
            | Some recid \<Rightarrow> Inr (True, compact_signature recid (fCompressedPubKey k) r s))
      else Inr (False, replicate 65 0))
    \<and> length (compact_signature recid c r s) = 65
    \<and> compact_signature recid c r s ! 0 = of_nat (27 + recid + (if c then 4 else 0))
    \<and> take 32 (drop 1 (compact_signature recid c r s)) = be_bytes 32 r
    \<and> drop 33 (compact_signature recid c r s) = be_bytes 32 s"
proof -
  have "SignCompact g (Some (r, s)) hash v0 k =
     (if r < 2 ^ 256 \<and> s < 2 ^ 256
      then (case first_recid g k (r, s) hash of
              None \<Rightarrow> Inl (key_error ''CKey::SignCompact() : unable to construct recoverable key'')
            | Some recid \<Rightarrow> Inr (True, compact_signature recid (fCompressedPubKey k) r s))
      else Inr (False, replicate 65 0))"
    using assms by (intro SignCompact_value) auto
  then show ?thesis
    by (simp add: compact_signature_def length_be_bytes)
qed

text \<open>
  An instance on the curve with seven points: the compressed key of the scalar 3, the
  digest whose number is 5 after truncation, and its signature (1, 4) made with the
  nonce 2. The ids 0 and 1 select no point, the id 2 recovers another key, the id 3
  recovers the key: the header is 34.
\<close>

theorem SignCompact_compact_signature_witness:
  "SignCompact curve13 (Some (1, 4)) (be_bytes 32 0x50) [] (MakeNewKey curve13 3 True CKey_new)
     = Inr (True, 0x22 # be_bytes 32 1 @ be_bytes 32 4)"
proof -
  let ?k = "\<lparr>pkey = \<lparr>priv_key = Some 3, pub_key = Some (3 :: nat),
                       conv_form = POINT_CONVERSION_COMPRESSED\<rparr>,
             fSet = True, fCompressedPubKey = True\<rparr>"
  have enc: "\<forall>P. grp_point2oct curve13 (if fCompressedPubKey ?k then POINT_CONVERSION_COMPRESSED
                               else POINT_CONVERSION_UNCOMPRESSED) P \<noteq> []"
    using curve13_point2oct_nonempty [of True] by simp
  show ?thesis
    using SignCompact_compact_signature
      [OF curve13_key3(2) enc, of 1 4 "be_bytes 32 0x50" "[]", THEN conjunct1]
    by (simp add: curve13_key3(1) curve13_first_recid compact_signature_def del: One_nat_def)
qed

lemma SignCompact_TrueE:
  assumes "SignCompact g (Some (r, s)) hash v0 k = Inr (True, vchSig)"
  obtains j where "j < 4" "r < 2 ^ 256" "s < 2 ^ 256"
    "recid_test g k (r, s) hash j = Inr True"
    "vchSig = compact_signature j (fCompressedPubKey k) r s"
proof -
  have bits: "BN_num_bits r \<le> 256" "BN_num_bits s \<le> 256"
    using assms by (auto simp: SignCompact_def Let_def split: if_splits)
  then have small: "r < 2 ^ 256" "s < 2 ^ 256"
    by (simp_all only: BN_num_bits_le)
  from assms bits obtain n where loop: "recid_loop g k (r, s) hash 0 = Inr n" and n: "n \<noteq> - 1"
    by (auto simp: SignCompact_def Let_def split: sum.splits if_splits)
  then obtain j where j: "j < 4" "n = int j" "recid_test g k (r, s) hash j = Inr True"
    using recid_loop_found by blast
  have "vchSig = compact_signature j (fCompressedPubKey k) r s"
    using assms bits loop n j(2)
    by (cases "fCompressedPubKey k")
       (simp_all add: SignCompact_def Let_def compact_writes compact_signature_def ac_simps)
  with j small show ?thesis
    by (intro that [of j]) auto
qed

lemma GetPubKey_nonempty: "GetPubKey g k = Inr pub \<Longrightarrow> pub \<noteq> []"
  by (auto simp: GetPubKey_def Let_def split: if_splits)

lemma compact_roundtrip:
  assumes "SignCompact g (Some (r, s)) hash v0 k = Inr (True, vchSig)"
  obtains Q pub where
    "SetCompactSignature g hash vchSig k0 =
       (True,
        \<lparr>pkey = \<lparr>priv_key = None, pub_key = Some Q,
                 conv_form = (if fCompressedPubKey k then POINT_CONVERSION_COMPRESSED
                              else POINT_CONVERSION_UNCOMPRESSED)\<rparr>,
         fSet = True,
         fCompressedPubKey = (fCompressedPubKey k \<or> fCompressedPubKey k0)\<rparr>)"
    "GetPubKey g k = Inr pub"
    "grp_point2oct g (if fCompressedPubKey k then POINT_CONVERSION_COMPRESSED
                      else POINT_CONVERSION_UNCOMPRESSED) Q = pub"
    "pub \<noteq> []"
proof -
  from assms obtain j where j: "j < 4" "r < 2 ^ 256" "s < 2 ^ 256"
    "recid_test g k (r, s) hash j = Inr True"
    "vchSig = compact_signature j (fCompressedPubKey k) r s"
    by (rule SignCompact_TrueE)
  from j(4) obtain Q pub where
    rec1: "\<And>eckey. ECDSA_SIG_recover_key_GFp g eckey (r, s) hash j 1
                    = (1, eckey\<lparr>pub_key := Some Q\<rparr>)"
    and own: "GetPubKey g k = Inr pub"
    and enc: "grp_point2oct g (if fCompressedPubKey k then POINT_CONVERSION_COMPRESSED
                      else POINT_CONVERSION_UNCOMPRESSED) Q = pub"
    by (rule recid_test_True) blast
  have rec0: "ECDSA_SIG_recover_key_GFp g eckey (r, s) hash j 0
                    = (1, eckey\<lparr>pub_key := Some Q\<rparr>)" for eckey
    using rec1 [of eckey] by (rule recover_check)
  have "SetCompactSignature g hash (compact_signature j (fCompressedPubKey k) r s) k0 =
       (True,
        \<lparr>pkey = \<lparr>priv_key = None, pub_key = Some Q,
                 conv_form = (if fCompressedPubKey k then POINT_CONVERSION_COMPRESSED
                              else POINT_CONVERSION_UNCOMPRESSED)\<rparr>,
         fSet = True,
         fCompressedPubKey = (fCompressedPubKey k \<or> fCompressedPubKey k0)\<rparr>)"
    using j(1,2,3) rec0 by (rule SetCompactSignature_compact)
  with own enc GetPubKey_nonempty [OF own] show ?thesis
    unfolding j(5) [symmetric] by (rule that [rotated 1]) 
qed

lemma compact_roundtrip_facts:
  assumes "SignCompact g (Some (r, s)) hash v0 k = Inr (True, vchSig)"
  shows "fst (SetCompactSignature g hash vchSig k0)
    \<and> GetPubKey g (snd (SetCompactSignature g hash vchSig k0)) = GetPubKey g k
    \<and> (\<exists>Q. recoverCompact g hash vchSig = Some (fCompressedPubKey k, Q)
           \<and> GetPubKey g k = Inr (grp_point2oct g
                 (if fCompressedPubKey k then POINT_CONVERSION_COMPRESSED
                  else POINT_CONVERSION_UNCOMPRESSED) Q))
    \<and> VerifyCompact g k hash vchSig = Inr True"
proof -
  let ?form = "if fCompressedPubKey k then POINT_CONVERSION_COMPRESSED
               else POINT_CONVERSION_UNCOMPRESSED"
  have get: "GetPubKey g \<lparr>pkey = \<lparr>priv_key = None, pub_key = Some Q, conv_form = f\<rparr>,
                          fSet = True, fCompressedPubKey = c\<rparr> = Inr (grp_point2oct g f Q)"
    if "grp_point2oct g f Q \<noteq> []" for Q f c
    using that by (simp add: GetPubKey_def i2o_ECPublicKey_def)
  from assms obtain Q pub where
    set: "SetCompactSignature g hash vchSig k0 =
       (True, \<lparr>pkey = \<lparr>priv_key = None, pub_key = Some Q, conv_form = ?form\<rparr>,
               fSet = True, fCompressedPubKey = (fCompressedPubKey k \<or> fCompressedPubKey k0)\<rparr>)"
    and own: "GetPubKey g k = Inr pub" and enc: "grp_point2oct g ?form Q = pub" and ne: "pub \<noteq> []"
    by (rule compact_roundtrip)
  from assms obtain Q' pub' where
    set': "SetCompactSignature g hash vchSig CKey_new =
       (True, \<lparr>pkey = \<lparr>priv_key = None, pub_key = Some Q', conv_form = ?form\<rparr>,
               fSet = True,
               fCompressedPubKey = (fCompressedPubKey k \<or> fCompressedPubKey (CKey_new :: 'a CKey))\<rparr>)"
    and own': "GetPubKey g k = Inr pub'" and enc': "grp_point2oct g ?form Q' = pub'"
    by (rule compact_roundtrip)
  have p1: "fst (SetCompactSignature g hash vchSig k0)"
    by (simp add: set)
  have p2: "GetPubKey g (snd (SetCompactSignature g hash vchSig k0)) = GetPubKey g k"
    using ne enc by (simp add: set own get)
  have "recoverCompact g hash vchSig = Some (fCompressedPubKey k, Q)"
    using SetCompactSignature_spec [of g hash vchSig k0]
    by (auto simp: set POINT_CONVERSION_COMPRESSED_def POINT_CONVERSION_UNCOMPRESSED_def
          split: option.splits if_splits)
  then have p3: "\<exists>Q. recoverCompact g hash vchSig = Some (fCompressedPubKey k, Q)
           \<and> GetPubKey g k = Inr (grp_point2oct g ?form Q)"
    using own enc by auto
  have p4: "VerifyCompact g k hash vchSig = Inr True"
    using own own' enc' ne by (simp add: VerifyCompact_def set' get)
  from p1 p2 p3 p4 show ?thesis
    by blast
qed

lemma curve13_key3u:
  "MakeNewKey curve13 3 False CKey_new =
     \<lparr>pkey = \<lparr>priv_key = Some 3, pub_key = Some 3, conv_form = POINT_CONVERSION_UNCOMPRESSED\<rparr>,
      fSet = True, fCompressedPubKey = False\<rparr>"
  "GetPubKey curve13
     \<lparr>pkey = \<lparr>priv_key = Some 3, pub_key = Some 3, conv_form = POINT_CONVERSION_UNCOMPRESSED\<rparr>,
      fSet = True, fCompressedPubKey = False\<rparr> = Inr [0x04, 0x0b, 0x08]"
  by (simp_all add: MakeNewKey_def CKey_new_def Reset_def SetCompressedPubKey_def
        EC_KEY_new_by_curve_name_def point_mul_numeral point_mul_1 curve13_sel
        GetPubKey_def i2o_ECPublicKey_def curve13_point2oct_def curve13_xy_def
        POINT_CONVERSION_UNCOMPRESSED_def del: One_nat_def)

lemma drop_one_Cons: "drop 1 (x # xs) = xs"
  by simp

lemma curve13_recover_8:
  "ECDSA_SIG_recover_key_GFp curve13 eckey (8, 4) (be_bytes 32 0x50) 0 check
     = (1, eckey\<lparr>pub_key := Some 1\<rparr>)"
proof -
  have b: "BN_bin2bn (be_bytes 32 0x50) = 0x50"
    by (rule BN_bin2bn_be_bytes) simp
  show ?thesis
    by (simp add: ECDSA_SIG_recover_key_GFp_def b curve13_decompress curve13_sel
          length_be_bytes EC_POINT_mul_def point_mul_numeral point_mul_1 BN_rshift_def
          BN_mod_sub_def BN_mod_inverse_def BN_mod_mul_def inv_mod_8_7 gcd_7 Let_def
          del: One_nat_def)
qed

lemma curve13_recoverCompact:
  "recoverCompact curve13 (be_bytes 32 0x50) (0x22 # be_bytes 32 1 @ be_bytes 32 4) = Some (True, 3)"
  "recoverCompact curve13 (be_bytes 32 0x50) (0x1b # be_bytes 32 8 @ be_bytes 32 4) = Some (False, 1)"
  "recoverCompact curve13 (be_bytes 32 0x50) (0x1a # be_bytes 32 8 @ be_bytes 32 4) = None"
  "recoverCompact curve13 (be_bytes 32 0x50) (0x23 # be_bytes 32 1 @ be_bytes 32 4) = None"
  "recoverCompact curve13 (be_bytes 32 0x50) (0x22 # be_bytes 32 1) = None"
proof -
  have v: "BN_bin2bn (be_bytes 32 1) = 1" "BN_bin2bn (be_bytes 32 4) = 4" "BN_bin2bn (be_bytes 32 8) = 8"
    by (simp_all add: BN_bin2bn_be_bytes)
  show "recoverCompact curve13 (be_bytes 32 0x50) (0x22 # be_bytes 32 1 @ be_bytes 32 4) = Some (True, 3)"
    "recoverCompact curve13 (be_bytes 32 0x50) (0x1b # be_bytes 32 8 @ be_bytes 32 4) = Some (False, 1)"
    "recoverCompact curve13 (be_bytes 32 0x50) (0x1a # be_bytes 32 8 @ be_bytes 32 4) = None"
    "recoverCompact curve13 (be_bytes 32 0x50) (0x23 # be_bytes 32 1 @ be_bytes 32 4) = None"
    "recoverCompact curve13 (be_bytes 32 0x50) (0x22 # be_bytes 32 1) = None"
    by (simp_all add: recoverCompact_def length_be_bytes v curve13_recover_3 curve13_recover_8
          drop_one_Cons Let_def del: One_nat_def)
qed

text \<open>
  Instances on the curve with seven points: the headers 34 and 27 are accepted (the
  first is the signature (1, 4) of the compressed key 3, the second recovers the
  uncompressed point 1 from r = 8), the headers 26 and 35 and a signature of 33 bytes
  are rejected.
\<close>

theorem SetCompactSignature_recoverCompact_witness:
  "SetCompactSignature curve13 (be_bytes 32 0x50) (0x22 # be_bytes 32 1 @ be_bytes 32 4) CKey_new
     = (True, \<lparr>pkey = \<lparr>priv_key = None, pub_key = Some 3,
                       conv_form = POINT_CONVERSION_COMPRESSED\<rparr>,
               fSet = True, fCompressedPubKey = True\<rparr>)
   \<and> SetCompactSignature curve13 (be_bytes 32 0x50) (0x1b # be_bytes 32 8 @ be_bytes 32 4) CKey_new
     = (True, \<lparr>pkey = \<lparr>priv_key = None, pub_key = Some 1,
                       conv_form = POINT_CONVERSION_UNCOMPRESSED\<rparr>,
               fSet = True, fCompressedPubKey = False\<rparr>)
   \<and> fst (SetCompactSignature curve13 (be_bytes 32 0x50)
            (0x1a # be_bytes 32 8 @ be_bytes 32 4) CKey_new) = False
   \<and> fst (SetCompactSignature curve13 (be_bytes 32 0x50)
            (0x23 # be_bytes 32 1 @ be_bytes 32 4) CKey_new) = False
   \<and> fst (SetCompactSignature curve13 (be_bytes 32 0x50) (0x22 # be_bytes 32 1) CKey_new) = False"
proof -
  have a: "SetCompactSignature curve13 (be_bytes 32 0x50) (0x22 # be_bytes 32 1 @ be_bytes 32 4) CKey_new
     = (True, \<lparr>pkey = \<lparr>priv_key = None, pub_key = Some 3,
                       conv_form = POINT_CONVERSION_COMPRESSED\<rparr>,
               fSet = True, fCompressedPubKey = True\<rparr>)"
    by (subst SetCompactSignature_recoverCompact)
       (simp add: curve13_recoverCompact CKey_new_def Reset_def del: One_nat_def)
  have b: "SetCompactSignature curve13 (be_bytes 32 0x50) (0x1b # be_bytes 32 8 @ be_bytes 32 4) CKey_new
     = (True, \<lparr>pkey = \<lparr>priv_key = None, pub_key = Some 1,
                       conv_form = POINT_CONVERSION_UNCOMPRESSED\<rparr>,
               fSet = True, fCompressedPubKey = False\<rparr>)"
    by (subst SetCompactSignature_recoverCompact)
       (simp add: curve13_recoverCompact CKey_new_def Reset_def del: One_nat_def)
  have c: "fst (SetCompactSignature curve13 (be_bytes 32 0x50)
            (0x1a # be_bytes 32 8 @ be_bytes 32 4) CKey_new) = False"
    by (subst SetCompactSignature_recoverCompact)
       (simp add: curve13_recoverCompact del: One_nat_def)
  have d: "fst (SetCompactSignature curve13 (be_bytes 32 0x50)
            (0x23 # be_bytes 32 1 @ be_bytes 32 4) CKey_new) = False"
    by (subst SetCompactSignature_recoverCompact)
       (simp add: curve13_recoverCompact del: One_nat_def)
  have e: "fst (SetCompactSignature curve13 (be_bytes 32 0x50) (0x22 # be_bytes 32 1) CKey_new) = False"
    by (subst SetCompactSignature_recoverCompact)
       (simp add: curve13_recoverCompact del: One_nat_def)
  from a b c d e show ?thesis
    by (simp del: One_nat_def)
qed

section \<open>The algebra of the recovery\<close>

lemma ec_group_lawsD:
  assumes "ec_group_laws g"
  shows "grp_on_curve g (grp_infinity g)" "grp_on_curve g (grp_generator g)"
    "\<And>P Q. grp_on_curve g P \<Longrightarrow> grp_on_curve g Q \<Longrightarrow> grp_on_curve g (grp_add g P Q)"
    "\<And>P. grp_on_curve g P \<Longrightarrow> grp_on_curve g (grp_neg g P)"
    "\<And>P Q R. grp_on_curve g P \<Longrightarrow> grp_on_curve g Q \<Longrightarrow> grp_on_curve g R \<Longrightarrow>
        grp_add g (grp_add g P Q) R = grp_add g P (grp_add g Q R)"
    "\<And>P Q. grp_on_curve g P \<Longrightarrow> grp_on_curve g Q \<Longrightarrow> grp_add g P Q = grp_add g Q P"
    "\<And>P. grp_on_curve g P \<Longrightarrow> grp_add g (grp_infinity g) P = P"
    "\<And>P. grp_on_curve g P \<Longrightarrow> grp_add g (grp_neg g P) P = grp_infinity g"
    "point_mul g (grp_order g) (grp_generator g) = grp_infinity g"
    "\<And>x b R. grp_decompress g x b = Some R \<Longrightarrow> grp_on_curve g R"
    "1 < grp_order g"
    "\<And>r. 0 < r \<Longrightarrow> r < grp_order g \<Longrightarrow> gcd r (grp_order g) = 1"
proof -
  have c: "grp_on_curve g (grp_infinity g) \<and> grp_on_curve g (grp_generator g)
     \<and> (\<forall>P Q. grp_on_curve g P \<and> grp_on_curve g Q \<longrightarrow> grp_on_curve g (grp_add g P Q))
     \<and> (\<forall>P. grp_on_curve g P \<longrightarrow> grp_on_curve g (grp_neg g P))
     \<and> (\<forall>P Q R. grp_on_curve g P \<and> grp_on_curve g Q \<and> grp_on_curve g R \<longrightarrow>
            grp_add g (grp_add g P Q) R = grp_add g P (grp_add g Q R))
     \<and> (\<forall>P Q. grp_on_curve g P \<and> grp_on_curve g Q \<longrightarrow> grp_add g P Q = grp_add g Q P)
     \<and> (\<forall>P. grp_on_curve g P \<longrightarrow> grp_add g (grp_infinity g) P = P)
     \<and> (\<forall>P. grp_on_curve g P \<longrightarrow> grp_add g (grp_neg g P) P = grp_infinity g)
     \<and> point_mul g (grp_order g) (grp_generator g) = grp_infinity g
     \<and> (\<forall>x b R. grp_decompress g x b = Some R \<longrightarrow> grp_on_curve g R)
     \<and> 1 < grp_order g
     \<and> (\<forall>r. 0 < r \<and> r < grp_order g \<longrightarrow> gcd r (grp_order g) = 1)"
    using assms unfolding ec_group_laws_def .
  note c1 = c [THEN conjunct1]
  note r1 = c [THEN conjunct2]
  note c2 = r1 [THEN conjunct1]
  note r2 = r1 [THEN conjunct2]
  note c3 = r2 [THEN conjunct1]
  note r3 = r2 [THEN conjunct2]
  note c4 = r3 [THEN conjunct1]
  note r4 = r3 [THEN conjunct2]
  note c5 = r4 [THEN conjunct1]
  note r5 = r4 [THEN conjunct2]
  note c6 = r5 [THEN conjunct1]
  note r6 = r5 [THEN conjunct2]
  note c7 = r6 [THEN conjunct1]
  note r7 = r6 [THEN conjunct2]
  note c8 = r7 [THEN conjunct1]
  note r8 = r7 [THEN conjunct2]
  note c9 = r8 [THEN conjunct1]
  note r9 = r8 [THEN conjunct2]
  note c10 = r9 [THEN conjunct1]
  note r10 = r9 [THEN conjunct2]
  note c11 = r10 [THEN conjunct1]
  note c12 = r10 [THEN conjunct2]
  show "grp_on_curve g (grp_infinity g)" by (rule c1)
  show "grp_on_curve g (grp_generator g)" by (rule c2)
  show "\<And>P Q. grp_on_curve g P \<Longrightarrow> grp_on_curve g Q \<Longrightarrow> grp_on_curve g (grp_add g P Q)"
    using c3 by blast
  show "\<And>P. grp_on_curve g P \<Longrightarrow> grp_on_curve g (grp_neg g P)"
    using c4 by blast
  show "\<And>P Q R. grp_on_curve g P \<Longrightarrow> grp_on_curve g Q \<Longrightarrow> grp_on_curve g R \<Longrightarrow>
        grp_add g (grp_add g P Q) R = grp_add g P (grp_add g Q R)"
    using c5 by blast
  show "\<And>P Q. grp_on_curve g P \<Longrightarrow> grp_on_curve g Q \<Longrightarrow> grp_add g P Q = grp_add g Q P"
    using c6 by blast
  show "\<And>P. grp_on_curve g P \<Longrightarrow> grp_add g (grp_infinity g) P = P"
    using c7 by blast
  show "\<And>P. grp_on_curve g P \<Longrightarrow> grp_add g (grp_neg g P) P = grp_infinity g"
    using c8 by blast
  show "point_mul g (grp_order g) (grp_generator g) = grp_infinity g" by (rule c9)
  show "\<And>x b R. grp_decompress g x b = Some R \<Longrightarrow> grp_on_curve g R"
    using c10 by blast
  show "1 < grp_order g" by (rule c11)
  show "\<And>r. 0 < r \<Longrightarrow> r < grp_order g \<Longrightarrow> gcd r (grp_order g) = 1"
    using c12 by blast
qed

lemma on_point_mul:
  assumes "ec_group_laws g" "grp_on_curve g P"
  shows "grp_on_curve g (point_mul g k P)"
  by (induction k) (simp_all add: ec_group_lawsD(1,3) [OF assms(1)] assms(2))

lemma add_infinity_right:
  assumes "ec_group_laws g" "grp_on_curve g P"
  shows "grp_add g P (grp_infinity g) = P"
  using ec_group_lawsD(6) [OF assms(1), of P "grp_infinity g"]
    ec_group_lawsD(1,7) [OF assms(1)] assms(2) by simp

lemma point_mul_add:
  assumes l: "ec_group_laws g" and P: "grp_on_curve g P"
  shows "point_mul g (a + b) P = grp_add g (point_mul g a P) (point_mul g b P)"
proof (induction a)
  case 0
  show ?case
    by (simp add: ec_group_lawsD(7) [OF l] on_point_mul [OF l P])
next
  case (Suc a)
  have "grp_add g P (grp_add g (point_mul g a P) (point_mul g b P))
        = grp_add g (grp_add g P (point_mul g a P)) (point_mul g b P)"
    by (rule ec_group_lawsD(5) [OF l, symmetric]) (simp_all add: P on_point_mul [OF l P])
  with Suc show ?case
    by simp
qed

lemma point_mul_infinity:
  assumes l: "ec_group_laws g"
  shows "point_mul g k (grp_infinity g) = grp_infinity g"
  by (induction k) (simp_all add: ec_group_lawsD(1,7) [OF l])

lemma point_mul_mult:
  assumes l: "ec_group_laws g" and P: "grp_on_curve g P"
  shows "point_mul g (a * b) P = point_mul g a (point_mul g b P)"
proof (induction a)
  case 0
  show ?case by simp
next
  case (Suc a)
  have "point_mul g (Suc a * b) P = point_mul g (b + a * b) P"
    by simp
  also have "\<dots> = grp_add g (point_mul g b P) (point_mul g (a * b) P)"
    by (rule point_mul_add [OF l P])
  finally show ?case
    by (simp add: Suc)
qed

lemma point_mul_mod:
  assumes l: "ec_group_laws g" and P: "grp_on_curve g P"
    and o: "point_mul g (grp_order g) P = grp_infinity g"
  shows "point_mul g (a mod grp_order g) P = point_mul g a P"
proof -
  let ?n = "grp_order g"
  have "point_mul g a P = point_mul g ((a div ?n) * ?n + a mod ?n) P"
    by simp
  also have "\<dots> = grp_add g (point_mul g ((a div ?n) * ?n) P) (point_mul g (a mod ?n) P)"
    by (rule point_mul_add [OF l P])
  also have "point_mul g ((a div ?n) * ?n) P = point_mul g (a div ?n) (point_mul g ?n P)"
    by (rule point_mul_mult [OF l P])
  also have "\<dots> = grp_infinity g"
    by (simp add: o point_mul_infinity [OF l])
  finally show ?thesis
    by (simp add: ec_group_lawsD(7) [OF l] on_point_mul [OF l P])
qed

lemma add_swap_middle:
  assumes l: "ec_group_laws g"
    and on: "grp_on_curve g A" "grp_on_curve g B" "grp_on_curve g C" "grp_on_curve g D"
  shows "grp_add g (grp_add g A B) (grp_add g C D) = grp_add g (grp_add g A C) (grp_add g B D)"
proof -
  note cl = ec_group_lawsD(3) [OF l]
  note assoc = ec_group_lawsD(5) [OF l]
  note comm = ec_group_lawsD(6) [OF l]
  have "grp_add g (grp_add g A B) (grp_add g C D) = grp_add g A (grp_add g B (grp_add g C D))"
    by (simp add: assoc on cl)
  also have "grp_add g B (grp_add g C D) = grp_add g (grp_add g B C) D"
    by (simp add: assoc on cl)
  also have "grp_add g B C = grp_add g C B"
    by (simp add: comm on)
  also have "grp_add g (grp_add g C B) D = grp_add g C (grp_add g B D)"
    by (simp add: assoc on cl)
  also have "grp_add g A (grp_add g C (grp_add g B D)) = grp_add g (grp_add g A C) (grp_add g B D)"
    by (simp add: assoc on cl)
  finally show ?thesis .
qed

lemma point_mul_distrib:
  assumes l: "ec_group_laws g" and P: "grp_on_curve g P" and Q: "grp_on_curve g Q"
  shows "point_mul g a (grp_add g P Q) = grp_add g (point_mul g a P) (point_mul g a Q)"
proof (induction a)
  case 0
  show ?case
    by (simp add: ec_group_lawsD(1,7) [OF l])
next
  case (Suc a)
  have "grp_add g (grp_add g P Q) (grp_add g (point_mul g a P) (point_mul g a Q))
        = grp_add g (grp_add g P (point_mul g a P)) (grp_add g Q (point_mul g a Q))"
    by (rule add_swap_middle [OF l]) (simp_all add: P Q on_point_mul [OF l])
  with Suc show ?case
    by simp
qed

lemma neg_point_mul:
  assumes l: "ec_group_laws g" and P: "grp_on_curve g P"
    and o: "point_mul g (grp_order g) P = grp_infinity g"
  shows "grp_neg g (point_mul g e P) = point_mul g (BN_mod_sub 0 e (grp_order g)) P"
proof -
  let ?n = "grp_order g"
  let ?X = "point_mul g e P" and ?Y = "point_mul g (BN_mod_sub 0 e ?n) P"
  have n: "0 < ?n"
    using ec_group_lawsD(11) [OF l] by simp
  have X: "grp_on_curve g ?X" and Y: "grp_on_curve g ?Y"
    by (simp_all add: on_point_mul [OF l P])
  have N: "grp_on_curve g (grp_neg g ?X)"
    by (simp add: ec_group_lawsD(4) [OF l] X)
  have "int ((e + BN_mod_sub 0 e ?n) mod ?n) = (int e + (0 - int e) mod int ?n) mod int ?n"
    using n by (simp add: BN_mod_sub_def zmod_int)
  also have "\<dots> = 0"
    by (simp add: mod_add_right_eq)
  finally have z: "(e + BN_mod_sub 0 e ?n) mod ?n = 0"
    by simp
  have "grp_add g ?X ?Y = point_mul g (e + BN_mod_sub 0 e ?n) P"
    by (rule point_mul_add [OF l P, symmetric])
  also have "\<dots> = point_mul g ((e + BN_mod_sub 0 e ?n) mod ?n) P"
    by (rule point_mul_mod [OF l P o, symmetric])
  finally have XY: "grp_add g ?X ?Y = grp_infinity g"
    by (simp add: z)
  have "grp_neg g ?X = grp_add g (grp_neg g ?X) (grp_add g ?X ?Y)"
    by (simp add: XY add_infinity_right [OF l N])
  also have "\<dots> = grp_add g (grp_add g (grp_neg g ?X) ?X) ?Y"
    by (rule ec_group_lawsD(5) [OF l, symmetric]) (rule N X Y)+
  also have "\<dots> = ?Y"
    by (simp add: ec_group_lawsD(8) [OF l X] ec_group_lawsD(7) [OF l Y])
  finally show ?thesis .
qed

lemma recovery_formula:
  assumes l: "ec_group_laws g" and R: "grp_on_curve g R"
    and o: "point_mul g (grp_order g) R = grp_infinity g"
  shows "grp_add g (point_mul g (BN_mod_mul (BN_mod_sub 0 e (grp_order g)) rr (grp_order g))
                      (grp_generator g))
                   (point_mul g (BN_mod_mul s rr (grp_order g)) R)
         = point_mul g rr (grp_add g (point_mul g s R)
                             (grp_neg g (point_mul g e (grp_generator g))))"
proof -
  let ?n = "grp_order g" and ?G = "grp_generator g"
  let ?e = "BN_mod_sub 0 e ?n"
  have G: "grp_on_curve g ?G"
    by (rule ec_group_lawsD(2) [OF l])
  have oG: "point_mul g ?n ?G = grp_infinity g"
    by (rule ec_group_lawsD(9) [OF l])
  have "point_mul g rr (grp_add g (point_mul g s R) (grp_neg g (point_mul g e ?G)))
        = point_mul g rr (grp_add g (point_mul g s R) (point_mul g ?e ?G))"
    by (simp add: neg_point_mul [OF l G oG])
  also have "\<dots> = grp_add g (point_mul g rr (point_mul g s R)) (point_mul g rr (point_mul g ?e ?G))"
    by (rule point_mul_distrib [OF l]) (simp_all add: on_point_mul [OF l] R G)
  also have "\<dots> = grp_add g (point_mul g (rr * s) R) (point_mul g (rr * ?e) ?G)"
    by (simp add: point_mul_mult [OF l R] point_mul_mult [OF l G])
  also have "\<dots> = grp_add g (point_mul g ((s * rr) mod ?n) R) (point_mul g ((?e * rr) mod ?n) ?G)"
    by (simp add: point_mul_mod [OF l R o] point_mul_mod [OF l G oG] mult.commute)
  also have "\<dots> = grp_add g (point_mul g ((?e * rr) mod ?n) ?G) (point_mul g ((s * rr) mod ?n) R)"
    by (rule ec_group_lawsD(6) [OF l]) (simp_all add: on_point_mul [OF l] R G)
  finally show ?thesis
    by (simp add: BN_mod_mul_def)
qed

lemma inv_mod_correct:
  assumes "gcd r n = 1" "1 < n"
  shows "(r * inv_mod r n) mod n = 1"
proof -
  define u v where "u = fst (bezw r n)" and "v = snd (bezw r n)"
  have b: "u * int r + v * int n = 1"
    using bezw_aux [of r n] assms(1) by (simp add: u_def v_def)
  have "int ((r * inv_mod r n) mod n) = (int r * (u mod int n)) mod int n"
    using assms(2) by (simp add: inv_mod_def u_def zmod_int)
  also have "\<dots> = (u * int r) mod int n"
    by (simp add: mod_mult_right_eq mult.commute)
  also have "\<dots> = (u * int r + v * int n) mod int n"
    by simp
  also have "\<dots> = 1"
    using assms(2) by (simp add: b)
  finally show ?thesis
    by simp
qed

lemma and_7: "(d::nat) AND 7 = d mod 8"
proof -
  have "(7::nat) = mask 3"
    by (simp add: mask_eq_exp_minus_1)
  then have "d AND 7 = take_bit 3 d"
    by (simp only: take_bit_eq_mask)
  then show ?thesis
    by (simp add: take_bit_eq_mod)
qed

lemma trunc_arith:
  fixes l d :: nat
  assumes "l \<le> (d + 7) div 8" "d < 8 * l"
  shows "8 * l - d = 8 - d mod 8"
proof -
  define q t where "q = d div 8" and "t = d mod 8"
  have d: "d = 8 * q + t" and t: "t < 8"
    by (simp_all add: q_def t_def)
  have "(d + 7) div 8 = q + (t + 7) div 8"
    unfolding d by simp
  moreover have "(t + 7) div 8 \<le> 1"
    using t by simp
  ultimately have "l \<le> q + 1"
    using assms(1) by linarith
  moreover have "q < l"
    using assms(2) d by linarith
  ultimately have "l = q + 1"
    by linarith
  then show ?thesis
    using d t by (simp add: t_def [symmetric])
qed


lemma truncate_digest_code:
  assumes "length msg \<le> (degree + 7) div 8"
  shows "(if 8 * length msg > degree then BN_rshift (BN_bin2bn msg) (8 - (degree AND 7))
          else BN_bin2bn msg) = truncate_digest degree msg"
  using trunc_arith [OF assms]
  by (simp add: truncate_digest_def BN_rshift_def and_7)

lemma recover_sec1:
  assumes l: "ec_group_laws g" and r: "0 < r" "r < grp_order g"
    and m: "length msg \<le> (grp_degree g + 7) div 8"
    and o: "check = 0 \<Longrightarrow>
            \<forall>R. grp_decompress g (r + j div 2 * grp_order g) (j mod 2) = Some R \<longrightarrow>
                point_mul g (grp_order g) R = grp_infinity g"
  shows "ECDSA_SIG_recover_key_GFp g eckey (r, s) msg j check =
          (case sec1_recover g (truncate_digest (grp_degree g) msg) (r, s) j (check \<noteq> 0) of
             None \<Rightarrow> (0, eckey)
           | Some Q \<Rightarrow> (1, eckey\<lparr>pub_key := Some Q\<rparr>))"
proof -
  let ?n = "grp_order g"
  have inv: "BN_mod_inverse r ?n = Some (inv_mod r ?n)"
    using ec_group_lawsD(12) [OF l r] by (simp add: BN_mod_inverse_def)
  have e: "(if 8 * length msg > grp_degree g
            then BN_rshift (BN_bin2bn msg) (8 - (grp_degree g AND 7))
            else BN_bin2bn msg) = truncate_digest (grp_degree g) msg"
    using m by (rule truncate_digest_code)
  have x: "?n * (j div 2) + r = r + j div 2 * ?n"
    by simp
  show ?thesis
  proof (cases "grp_decompress g (r + j div 2 * ?n) (j mod 2)")
    case None
    then show ?thesis
      by (simp add: ECDSA_SIG_recover_key_GFp_def sec1_recover_def Let_def x)
  next
    case (Some R)
    then have R: "grp_on_curve g R"
      by (rule ec_group_lawsD(10) [OF l])
    show ?thesis
    proof (cases "point_mul g ?n R = grp_infinity g")
      case True
      have Q: "grp_add g
               (point_mul g (BN_mod_mul (BN_mod_sub 0 (truncate_digest (grp_degree g) msg) ?n)
                               (inv_mod r ?n) ?n) (grp_generator g))
               (point_mul g (BN_mod_mul s (inv_mod r ?n) ?n) R)
             = point_mul g (inv_mod r ?n)
                 (grp_add g (point_mul g s R)
                    (grp_neg g (point_mul g (truncate_digest (grp_degree g) msg) (grp_generator g))))"
        using l R True by (rule recovery_formula)
      show ?thesis
        unfolding ECDSA_SIG_recover_key_GFp_def sec1_recover_def
        by (simp add: Let_def x Some inv e Q True EC_POINT_mul_def del: One_nat_def)
    next
      case False
      with o Some have c: "check \<noteq> 0"
        by blast
      show ?thesis
        unfolding ECDSA_SIG_recover_key_GFp_def sec1_recover_def
        by (simp add: Let_def x Some False c EC_POINT_mul_def del: One_nat_def)
    qed
  qed
qed

text \<open>
  Claim C4. On a group that obeys the laws of an elliptic curve with a generator of prime
  order \<open>n\<close>, for a signature with \<open>0 < r < n\<close> and a message no longer than the field (32
  bytes on secp256k1), \<^verbatim>\<open>ECDSA_SIG_recover_key_GFp\<close> returns 0 exactly where the recovery
  of SEC1 4.1.6 rejects: when \<open>x = r + (j div 2) n\<close> is not below the field prime, when no
  point has the x-coordinate \<open>x\<close> and the y-parity \<open>j mod 2\<close>, and, with \<open>check\<close>, when
  \<open>n R\<close> is not the point at infinity. Else it returns 1 with the public point
  \<open>r\<^sup>-\<^sup>1 (s R - e G)\<close> stored in the key, where \<open>e\<close> is the number of the truncated digest
  and \<open>r\<^sup>-\<^sup>1\<close> is the inverse of \<open>r\<close> modulo \<open>n\<close>. Without \<open>check\<close> the formula is stated
  for a point \<open>R\<close> that the order annihilates, as every point of secp256k1 is: the code
  reduces the scalars of \<open>R\<close> modulo \<open>n\<close>.
\<close>

theorem recover_key_follows_SEC1:
  assumes "ec_group_laws g" and "0 < r" and "r < grp_order g"
    and "length msg \<le> (grp_degree g + 7) div 8"
    and "check = 0 \<Longrightarrow>
         \<forall>R. grp_decompress g (r + j div 2 * grp_order g) (j mod 2) = Some R \<longrightarrow>
             point_mul g (grp_order g) R = grp_infinity g"
  shows "ECDSA_SIG_recover_key_GFp g eckey (r, s) msg j check =
          (case sec1_recover g (truncate_digest (grp_degree g) msg) (r, s) j (check \<noteq> 0) of
             None \<Rightarrow> (0, eckey)
           | Some Q \<Rightarrow> (1, eckey\<lparr>pub_key := Some Q\<rparr>))
    \<and> (r * inv_mod r (grp_order g)) mod grp_order g = 1"
proof
  show "ECDSA_SIG_recover_key_GFp g eckey (r, s) msg j check =
          (case sec1_recover g (truncate_digest (grp_degree g) msg) (r, s) j (check \<noteq> 0) of
             None \<Rightarrow> (0, eckey)
           | Some Q \<Rightarrow> (1, eckey\<lparr>pub_key := Some Q\<rparr>))"
    using assms by (rule recover_sec1)
  show "(r * inv_mod r (grp_order g)) mod grp_order g = 1"
    using ec_group_lawsD(12) [OF assms(1,2,3)] ec_group_lawsD(11) [OF assms(1)]
    by (rule inv_mod_correct)
qed

lemma curve13_point_mul: "point_mul curve13 k P = (if k = 0 then 0 else (k * P) mod 7)"
proof (induction k)
  case 0
  show ?case by (simp add: curve13_sel)
next
  case (Suc k)
  then show ?case
    by (simp add: curve13_sel mod_simps algebra_simps)
qed

lemma gcd_prime_7: "gcd r 7 = 1" if "0 < r" "r < 7" for r :: nat
proof -
  from that have "r = 1 \<or> r = 2 \<or> r = 3 \<or> r = 4 \<or> r = 5 \<or> r = 6"
    by arith
  then show ?thesis
    by (elim disjE; hypsubst; code_simp)
qed

lemma find_in_set: "find P xs = Some x \<Longrightarrow> x \<in> set xs"
  by (auto simp: find_Some_iff)

lemma curve13_laws: "ec_group_laws curve13"
proof -
  have dec: "R < 7" if "grp_decompress curve13 x b = Some R" for x b R
  proof -
    from that have "find (\<lambda>k. fst (curve13_xy k) = x mod 13 \<and> odd (snd (curve13_xy k)) = (b \<noteq> 0))
                      [1, 2, 3, 4, 5, 6] = Some R"
      by (simp only: curve13_def ec_group.select_convs)
    then have "R \<in> set [1, 2, 3, 4, 5, 6]"
      by (rule find_in_set)
    then show ?thesis
      by auto
  qed
  show ?thesis
    unfolding ec_group_laws_def
    by (simp add: curve13_sel curve13_point_mul mod_simps gcd_prime_7 del: One_nat_def)
       (auto simp: algebra_simps dec mod_simps)
qed

lemma curve31_sel:
  "grp_order curve31 = 7" "grp_field curve31 = 31" "grp_degree curve31 = 5"
  "grp_infinity curve31 = 0" "grp_generator curve31 = 3"
  "grp_add curve31 = (\<lambda>a b. (a + b) mod 21)" "grp_neg curve31 = (\<lambda>a. (21 - a) mod 21)"
  "grp_on_curve curve31 = (\<lambda>a. a < 21)" "grp_point2oct curve31 = curve31_point2oct"
  by (simp_all add: curve31_def)

lemma curve31_point_mul: "point_mul curve31 k P = (k * P) mod 21"
proof (induction k)
  case 0
  show ?case by (simp add: curve31_sel)
next
  case (Suc k)
  then show ?case
    by (simp add: curve31_sel mod_simps algebra_simps)
qed

lemma curve31_decompress:
  "grp_decompress curve31 4 0 = Some 13"
  "grp_decompress curve31 11 0 = Some 12"
  by (simp_all add: curve31_def curve31_xy_def del: One_nat_def)

lemma curve31_laws: "ec_group_laws curve31"
proof -
  have dec: "R < 21" if "grp_decompress curve31 x b = Some R" for x b R
  proof -
    from that have "find (\<lambda>k. fst (curve31_xy k) = x mod 31 \<and> odd (snd (curve31_xy k)) = (b \<noteq> 0))
                      [1, 2, 3, 4, 5, 6, 7, 8, 9, 10, 11, 12, 13, 14, 15, 16, 17, 18, 19, 20]
                    = Some R"
      by (simp only: curve31_def ec_group.select_convs)
    then have "R \<in> set [1, 2, 3, 4, 5, 6, 7, 8, 9, 10, 11, 12, 13, 14, 15, 16, 17, 18, 19, 20]"
      by (rule find_in_set)
    then show ?thesis
      by auto
  qed
  show ?thesis
    unfolding ec_group_laws_def
    by (simp add: curve31_sel curve31_point_mul mod_simps gcd_prime_7 del: One_nat_def)
       (auto simp: algebra_simps dec mod_simps)
qed

text \<open>
  On the curve with a cofactor: the one-byte digest \<open>0x50\<close> is cut to its five leftmost
  bits, the number 10, and the signature is \<open>(4, 4)\<close>. For the recovery id 0 the
  x-coordinate is 4 and the point with an even y-coordinate there is the point 13, which
  the order 7 does not annihilate: with the check the recovery rejects. For the
  recovery id 2 the x-coordinate is \<open>4 + 7 = 11\<close> and the point is 12, a multiple of the
  generator 3: the recovered key is \<open>4\<^sup>-\<^sup>1 (4 \<cdot> 12 - 10 \<cdot> 3) = 2 \<cdot> 18 = 15\<close> modulo 21,
  with and without the check.
\<close>

theorem recover_key_follows_SEC1_witness:
  "ECDSA_SIG_recover_key_GFp curve31 EC_KEY_new_by_curve_name (4, 4) [0x50] 0 1
     = (0, EC_KEY_new_by_curve_name)
   \<and> sec1_recover curve31 (truncate_digest 5 [0x50]) (4, 4) 0 True = None
   \<and> ECDSA_SIG_recover_key_GFp curve31 EC_KEY_new_by_curve_name (4, 4) [0x50] 2 1
     = (1, EC_KEY_new_by_curve_name\<lparr>pub_key := Some 15\<rparr>)
   \<and> ECDSA_SIG_recover_key_GFp curve31 EC_KEY_new_by_curve_name (4, 4) [0x50] 2 0
     = (1, EC_KEY_new_by_curve_name\<lparr>pub_key := Some 15\<rparr>)
   \<and> sec1_recover curve31 (truncate_digest 5 [0x50]) (4, 4) 2 False = Some 15"
proof -
  have e: "truncate_digest 5 [0x50] = 10"
    by (simp add: truncate_digest_def BN_bin2bn_def)
  have s0: "sec1_recover curve31 10 (4, 4) 0 True = None"
    by (simp add: sec1_recover_def curve31_sel curve31_decompress curve31_point_mul Let_def
          del: One_nat_def)
  have s2: "sec1_recover curve31 10 (4, 4) 2 c = Some 15" for c
    by (simp add: sec1_recover_def curve31_sel curve31_decompress curve31_point_mul
          inv_mod_4_7 Let_def del: One_nat_def)
  have o: "\<forall>R. grp_decompress curve31 (4 + 2 div 2 * grp_order curve31) (2 mod 2) = Some R \<longrightarrow>
               point_mul curve31 (grp_order curve31) R = grp_infinity curve31"
    by (simp add: curve31_sel curve31_decompress curve31_point_mul del: One_nat_def)
  have a: "ECDSA_SIG_recover_key_GFp curve31 EC_KEY_new_by_curve_name (4, 4) [0x50] 0 1
     = (0, EC_KEY_new_by_curve_name)"
    using recover_key_follows_SEC1
      [OF curve31_laws, of 4 "[0x50]" 1 0 EC_KEY_new_by_curve_name 4, THEN conjunct1]
    by (simp add: curve31_sel e s0 del: One_nat_def)
  have b: "ECDSA_SIG_recover_key_GFp curve31 EC_KEY_new_by_curve_name (4, 4) [0x50] 2 1
     = (1, EC_KEY_new_by_curve_name\<lparr>pub_key := Some 15\<rparr>)"
    using recover_key_follows_SEC1
      [OF curve31_laws, of 4 "[0x50]" 1 2 EC_KEY_new_by_curve_name 4, THEN conjunct1]
    by (simp add: curve31_sel e s2 del: One_nat_def)
  have c: "ECDSA_SIG_recover_key_GFp curve31 EC_KEY_new_by_curve_name (4, 4) [0x50] 2 0
     = (1, EC_KEY_new_by_curve_name\<lparr>pub_key := Some 15\<rparr>)"
    using recover_key_follows_SEC1
      [OF curve31_laws, of 4 "[0x50]" 0 2 EC_KEY_new_by_curve_name 4, THEN conjunct1] o
    by (simp add: curve31_sel e s2 del: One_nat_def)
  from a b c s0 s2 [of False] show ?thesis
    by (simp only: e) 
qed

text \<open>
  The hypothesis on \<open>n R\<close> cannot be dropped on a curve with a cofactor: without the check
  and for the recovery id 0 the code returns the point \<open>1 \<cdot> 3 + 1 \<cdot> 13 = 16\<close>, as it
  reduces \<open>s r\<^sup>-\<^sup>1\<close> modulo 7, where the formula gives \<open>2 (4 \<cdot> 13 - 10 \<cdot> 3) = 2\<close>. secp256k1
  has the cofactor 1.
\<close>

lemma recover_with_cofactor:
  "ECDSA_SIG_recover_key_GFp curve31 EC_KEY_new_by_curve_name (4, 4) [0x50] 0 0
     = (1, EC_KEY_new_by_curve_name\<lparr>pub_key := Some 16\<rparr>)
   \<and> sec1_recover curve31 (truncate_digest 5 [0x50]) (4, 4) 0 False = Some 2"
proof -
  have e: "truncate_digest 5 [0x50] = 10"
    by (simp add: truncate_digest_def BN_bin2bn_def)
  have g: "gcd (4::nat) 7 = 1"
    by (rule gcd_7)
  show ?thesis
    by (simp add: e ECDSA_SIG_recover_key_GFp_def sec1_recover_def curve31_sel
          curve31_decompress curve31_point_mul EC_POINT_mul_def BN_bin2bn_def BN_rshift_def
          BN_mod_sub_def BN_mod_inverse_def BN_mod_mul_def inv_mod_4_7 g Let_def
          del: One_nat_def)
qed

lemma recovery_scalar:
  fixes n :: nat
  assumes n: "1 < n" and r: "(r * rr) mod n = 1" and k: "(kk * ki) mod n = 1"
    and s: "s = (ki * (e + r * d)) mod n"
  shows "(rr * (s * kk + BN_mod_sub 0 e n)) mod n = d mod n"
proof -
  let ?N = "int n"
  have r': "(int r * int rr) mod ?N = 1"
    using r by (metis of_nat_1 of_nat_mult zmod_int)
  have k': "(int ki * int kk) mod ?N = 1"
    using k by (metis mult.commute of_nat_1 of_nat_mult zmod_int)
  have E: "int (BN_mod_sub 0 e n) = (- int e) mod ?N"
    using n by (simp add: BN_mod_sub_def)
  have s': "int s = (int ki * (int e + int r * int d)) mod ?N"
    unfolding s by (simp add: zmod_int)
  define A where "A = int ki * (int e + int r * int d)"
  define B where "B = int e + int r * int d"
  have AB: "A * int kk = (int ki * int kk) * B"
    by (simp add: A_def B_def)
  have "(int s * int kk + int (BN_mod_sub 0 e n)) mod ?N = (A mod ?N * int kk + (- int e) mod ?N) mod ?N"
    unfolding s' E A_def ..
  also have "\<dots> = (A * int kk + (- int e)) mod ?N"
    by (intro mod_add_cong mod_mult_cong) simp_all
  also have "\<dots> = ((int ki * int kk) * B + (- int e)) mod ?N"
    unfolding AB ..
  also have "\<dots> = (((int ki * int kk) mod ?N) * B + (- int e)) mod ?N"
    by (intro mod_add_cong mod_mult_cong) simp_all
  also have "\<dots> = (int r * int d) mod ?N"
    unfolding k' by (simp add: B_def)
  finally have a: "(int s * int kk + int (BN_mod_sub 0 e n)) mod ?N = (int r * int d) mod ?N" .
  have "(int rr * (int s * int kk + int (BN_mod_sub 0 e n))) mod ?N
        = (int rr * ((int s * int kk + int (BN_mod_sub 0 e n)) mod ?N)) mod ?N"
    by (intro mod_mult_cong) simp_all
  also have "\<dots> = (int rr * ((int r * int d) mod ?N)) mod ?N"
    unfolding a ..
  also have "\<dots> = (int rr * (int r * int d)) mod ?N"
    by (intro mod_mult_cong) simp_all
  also have "\<dots> = ((int r * int rr) * int d) mod ?N"
    by (simp add: mult.assoc mult.left_commute)
  also have "\<dots> = (((int r * int rr) mod ?N) * int d) mod ?N"
    by (intro mod_mult_cong) simp_all
  also have "\<dots> = int d mod ?N"
    unfolding r' by simp
  finally have "int ((rr * (s * kk + BN_mod_sub 0 e n)) mod n) = int (d mod n)"
    by (simp add: zmod_int)
  then show ?thesis
    by (simp only: of_nat_eq_iff)
qed


lemma ecdsa_recovers:
  assumes l: "ec_group_laws g" and p: "grp_field g \<le> 2 * grp_order g"
    and m: "length hash \<le> (grp_degree g + 7) div 8"
    and sig: "ecdsa_signature g d (truncate_digest (grp_degree g) hash) kk x b (r, s)"
  shows "2 * (x div grp_order g) + b < 4"
    and "ECDSA_SIG_recover_key_GFp g eckey (r, s) hash (2 * (x div grp_order g) + b) check
           = (1, eckey\<lparr>pub_key := Some (point_mul g d (grp_generator g))\<rparr>)"
proof -
  let ?n = "grp_order g" and ?G = "grp_generator g"
  let ?e = "truncate_digest (grp_degree g) hash"
  define j where "j = 2 * (x div ?n) + b"
  let ?R = "point_mul g kk ?G"
  let ?rr = "inv_mod r ?n" and ?ki = "inv_mod kk ?n"
  let ?E = "BN_mod_sub 0 ?e ?n"
  from sig have kk: "0 < kk" "kk < ?n" and x: "x < grp_field g" and b: "b < 2"
    and dec: "grp_decompress g x b = Some ?R"
    and r: "r = x mod ?n" "0 < r"
    and s: "s = (?ki * (?e + r * d)) mod ?n"
    by (simp_all add: ecdsa_signature_def Let_def)
  have n: "1 < ?n"
    by (rule ec_group_lawsD(11) [OF l])
  have rn: "r < ?n"
    using n by (simp add: r(1))
  have "x < 2 * ?n"
    using x p by linarith
  then have i: "x div ?n < 2"
    using n by (simp add: less_mult_imp_div_less)
  with b show "2 * (x div ?n) + b < 4"
    by linarith
  have jd: "j div 2 = x div ?n" and jm: "j mod 2 = b"
    using b by (simp_all add: j_def)
  have xr: "r + j div 2 * ?n = x"
    unfolding jd r(1) by simp
  have G: "grp_on_curve g ?G"
    by (rule ec_group_lawsD(2) [OF l])
  have oG: "point_mul g ?n ?G = grp_infinity g"
    by (rule ec_group_lawsD(9) [OF l])
  have R: "grp_on_curve g ?R"
    using l G by (rule on_point_mul)
  have "point_mul g ?n ?R = point_mul g (?n * kk) ?G"
    by (rule point_mul_mult [OF l G, symmetric])
  also have "\<dots> = point_mul g (kk * ?n) ?G"
    by (simp add: mult.commute)
  also have "\<dots> = point_mul g kk (point_mul g ?n ?G)"
    by (rule point_mul_mult [OF l G])
  also have "\<dots> = grp_infinity g"
    unfolding oG by (rule point_mul_infinity [OF l])
  finally have oR: "point_mul g ?n ?R = grp_infinity g" .
  have o: "\<forall>R'. grp_decompress g (r + j div 2 * ?n) (j mod 2) = Some R' \<longrightarrow>
                 point_mul g ?n R' = grp_infinity g"
    unfolding xr jm using dec oR by simp
  have rec: "ECDSA_SIG_recover_key_GFp g eckey (r, s) hash j check =
          (case sec1_recover g ?e (r, s) j (check \<noteq> 0) of
             None \<Rightarrow> (0, eckey)
           | Some Q \<Rightarrow> (1, eckey\<lparr>pub_key := Some Q\<rparr>))"
    using l r(2) rn m o by (rule recover_sec1)
  have sec: "sec1_recover g ?e (r, s) j c
             = Some (point_mul g ?rr (grp_add g (point_mul g s ?R) (grp_neg g (point_mul g ?e ?G))))"
    for c
    unfolding sec1_recover_def using x dec oR by (simp add: Let_def xr jm del: One_nat_def)
  have r1: "(r * ?rr) mod ?n = 1"
    using ec_group_lawsD(12) [OF l r(2) rn] n by (rule inv_mod_correct)
  have k1: "(kk * ?ki) mod ?n = 1"
    using ec_group_lawsD(12) [OF l kk] n by (rule inv_mod_correct)
  have sc: "(?rr * (s * kk + ?E)) mod ?n = d mod ?n"
    using n r1 k1 s by (rule recovery_scalar)
  have "point_mul g ?rr (grp_add g (point_mul g s ?R) (grp_neg g (point_mul g ?e ?G)))
        = point_mul g ?rr (grp_add g (point_mul g (s * kk) ?G) (point_mul g ?E ?G))"
    by (simp add: point_mul_mult [OF l G] neg_point_mul [OF l G oG])
  also have "\<dots> = point_mul g ?rr (point_mul g (s * kk + ?E) ?G)"
    by (simp add: point_mul_add [OF l G])
  also have "\<dots> = point_mul g (?rr * (s * kk + ?E)) ?G"
    by (rule point_mul_mult [OF l G, symmetric])
  also have "\<dots> = point_mul g ((?rr * (s * kk + ?E)) mod ?n) ?G"
    by (rule point_mul_mod [OF l G oG, symmetric])
  also have "\<dots> = point_mul g (d mod ?n) ?G"
    unfolding sc ..
  also have "\<dots> = point_mul g d ?G"
    by (rule point_mul_mod [OF l G oG])
  finally have Q: "point_mul g ?rr (grp_add g (point_mul g s ?R) (grp_neg g (point_mul g ?e ?G)))
                   = point_mul g d ?G" .
  show "ECDSA_SIG_recover_key_GFp g eckey (r, s) hash (2 * (x div ?n) + b) check
           = (1, eckey\<lparr>pub_key := Some (point_mul g d ?G)\<rparr>)"
    unfolding j_def [symmetric] rec sec Q by simp
qed

lemma find_first_four:
  assumes "j < 4" "P j"
  shows "\<exists>i. find P [0, 1, 2, 3 :: nat] = Some i"
proof -
  have "j = 0 \<or> j = 1 \<or> j = 2 \<or> j = 3"
    using assms(1) by arith
  with assms(2) show ?thesis
    by auto
qed

lemma SignCompact_succeeds:
  assumes l: "ec_group_laws g" and p: "grp_field g \<le> 2 * grp_order g"
    and n256: "grp_order g \<le> 2 ^ 256"
    and enc: "\<forall>P. grp_point2oct g (if fCompressedPubKey k then POINT_CONVERSION_COMPRESSED
                               else POINT_CONVERSION_UNCOMPRESSED) P \<noteq> []"
    and pub: "pub_key (pkey k) = Some (point_mul g d (grp_generator g))"
    and form: "conv_form (pkey k) = (if fCompressedPubKey k then POINT_CONVERSION_COMPRESSED
                                     else POINT_CONVERSION_UNCOMPRESSED)"
    and m: "length hash \<le> (grp_degree g + 7) div 8"
    and sig: "ecdsa_signature g d (truncate_digest (grp_degree g) hash) kk x b (r, s)"
  shows "\<exists>j. SignCompact g (Some (r, s)) hash v0 k
              = Inr (True, compact_signature j (fCompressedPubKey k) r s)"
proof -
  let ?n = "grp_order g"
  let ?form = "if fCompressedPubKey k then POINT_CONVERSION_COMPRESSED
               else POINT_CONVERSION_UNCOMPRESSED"
  let ?Q = "point_mul g d (grp_generator g)"
  let ?j = "2 * (x div ?n) + b"
  have n: "1 < ?n"
    by (rule ec_group_lawsD(11) [OF l])
  from sig have "r = x mod ?n" "s = (inv_mod kk ?n * (truncate_digest (grp_degree g) hash + r * d)) mod ?n"
    by (simp_all add: ecdsa_signature_def Let_def)
  then have "r < ?n" "s < ?n"
    using n by simp_all
  then have small: "r < 2 ^ 256 \<and> s < 2 ^ 256"
    using n256 by linarith
  have ne: "grp_point2oct g ?form ?Q \<noteq> []"
    using enc by blast
  have i2o: "i2o_ECPublicKey g (pkey k) = grp_point2oct g ?form ?Q"
    by (simp only: i2o_ECPublicKey_def pub form option.case)
  have own: "GetPubKey g k = Inr (grp_point2oct g ?form ?Q)"
    using ne by (simp add: GetPubKey_def i2o Let_def)
  have j: "?j < 4"
    using l p m sig by (rule ecdsa_recovers(1))
  have rec: "ECDSA_SIG_recover_key_GFp g (EC_KEY_new_by_curve_name\<lparr>conv_form := ?form\<rparr>)
               (r, s) hash ?j 1
             = (1, EC_KEY_new_by_curve_name\<lparr>conv_form := ?form, pub_key := Some ?Q\<rparr>)"
    using l p m sig by (rule ecdsa_recovers(2))
  have "recovers_own_key g k (r, s) hash ?j"
    unfolding recovers_own_key_def Let_def rec i2o
    by (simp add: i2o_ECPublicKey_def)
  with j obtain i where i: "first_recid g k (r, s) hash = Some i"
    unfolding first_recid_def using find_first_four by blast
  have "SignCompact g (Some (r, s)) hash v0 k =
     (if r < 2 ^ 256 \<and> s < 2 ^ 256
      then (case first_recid g k (r, s) hash of
              None \<Rightarrow> Inl (key_error ''CKey::SignCompact() : unable to construct recoverable key'')
            | Some recid \<Rightarrow> Inr (True, compact_signature recid (fCompressedPubKey k) r s))
      else Inr (False, replicate 65 0))"
    using own enc by (intro SignCompact_value) auto
  then show ?thesis
    using small by (auto simp: i)
qed

text \<open>
  Claim C7. The public point of the key is \<open>d G\<close>, written in the form of its
  compression flag, as \<^verbatim>\<open>MakeNewKey\<close> and \<^verbatim>\<open>SetSecret\<close> leave the key of the scalar \<open>d\<close>;
  the digest is no longer than the field (32 bytes on secp256k1); \<^verbatim>\<open>ECDSA_do_sign\<close>
  returns an ECDSA signature of the digest under \<open>d\<close>. The group obeys the laws of the
  curve, its field prime is at most twice its order and the order is at most \<open>2\<^sup>2\<^sup>5\<^sup>6\<close>, and
  writing a point does not fail: all this holds for secp256k1. Then \<^verbatim>\<open>SignCompact\<close> succeeds: the recovery id
  \<open>2 (x div n) + b\<close> of the nonce point recovers \<open>d G\<close>, so the loop over the four ids
  finds one. \<^verbatim>\<open>SetCompactSignature\<close> on the output succeeds in any key, and that key
  then gives the same public key bytes as the signer, compressed or uncompressed as the
  signer is; \<open>recoverCompact\<close> yields the point behind these bytes; \<^verbatim>\<open>VerifyCompact\<close> on
  the signer returns \<^verbatim>\<open>true\<close>.
\<close>

theorem compact_signature_roundtrip:
  assumes "ec_group_laws g" and "grp_field g \<le> 2 * grp_order g" and "grp_order g \<le> 2 ^ 256"
    and "\<forall>P. grp_point2oct g (if fCompressedPubKey k then POINT_CONVERSION_COMPRESSED
                               else POINT_CONVERSION_UNCOMPRESSED) P \<noteq> []"
    and "pub_key (pkey k) = Some (point_mul g d (grp_generator g))"
    and "conv_form (pkey k) = (if fCompressedPubKey k then POINT_CONVERSION_COMPRESSED
                               else POINT_CONVERSION_UNCOMPRESSED)"
    and "length hash \<le> (grp_degree g + 7) div 8"
    and "ecdsa_signature g d (truncate_digest (grp_degree g) hash) kk x b (r, s)"
  shows "\<exists>vchSig. SignCompact g (Some (r, s)) hash v0 k = Inr (True, vchSig)
    \<and> fst (SetCompactSignature g hash vchSig k0)
    \<and> GetPubKey g (snd (SetCompactSignature g hash vchSig k0)) = GetPubKey g k
    \<and> (\<exists>Q. recoverCompact g hash vchSig = Some (fCompressedPubKey k, Q)
           \<and> GetPubKey g k = Inr (grp_point2oct g
                 (if fCompressedPubKey k then POINT_CONVERSION_COMPRESSED
                  else POINT_CONVERSION_UNCOMPRESSED) Q))
    \<and> VerifyCompact g k hash vchSig = Inr True"
proof -
  from assms obtain j where
    sign: "SignCompact g (Some (r, s)) hash v0 k
           = Inr (True, compact_signature j (fCompressedPubKey k) r s)"
    using SignCompact_succeeds [of g k d hash kk x b r s v0] by blast
  from sign show ?thesis
    by (intro exI [of _ "compact_signature j (fCompressedPubKey k) r s"] conjI
          compact_roundtrip_facts [THEN conjunct1]
          compact_roundtrip_facts [THEN conjunct2, THEN conjunct1]
          compact_roundtrip_facts [THEN conjunct2, THEN conjunct2, THEN conjunct1]
          compact_roundtrip_facts [THEN conjunct2, THEN conjunct2, THEN conjunct2])
qed


text \<open>The hypotheses on the sizes hold for secp256k1.\<close>

lemma secp256k1_sizes:
  "grp_field secp256k1 \<le> 2 * grp_order secp256k1" "grp_order secp256k1 \<le> 2 ^ 256"
  "length hash = 32 \<Longrightarrow> length hash \<le> (grp_degree secp256k1 + 7) div 8"
  by (simp_all add: secp256k1_def secp256k1_p_def secp256k1_n_def)

lemma inv_mod_2_7: "inv_mod 2 7 = 4"
  by code_simp

lemma curve13_recover_byte:
  "ECDSA_SIG_recover_key_GFp curve13 eckey (1, 4) [0x50] 0 check = (0, eckey)"
  "ECDSA_SIG_recover_key_GFp curve13 eckey (1, 4) [0x50] 1 check = (0, eckey)"
  "ECDSA_SIG_recover_key_GFp curve13 eckey (1, 4) [0x50] 2 check
     = (1, eckey\<lparr>pub_key := Some 1\<rparr>)"
  "ECDSA_SIG_recover_key_GFp curve13 eckey (1, 4) [0x50] 3 check
     = (1, eckey\<lparr>pub_key := Some 3\<rparr>)"
  by (simp_all add: ECDSA_SIG_recover_key_GFp_def curve13_decompress curve13_sel
        EC_POINT_mul_def point_mul_numeral point_mul_1 BN_bin2bn_def BN_rshift_def
        BN_mod_sub_def BN_mod_inverse_def BN_mod_mul_def inv_mod_1_7 gcd_7 Let_def
        del: One_nat_def)

lemma curve13_first_recid_byte:
  "first_recid curve13
     \<lparr>pkey = \<lparr>priv_key = Some 3, pub_key = Some 3, conv_form = POINT_CONVERSION_COMPRESSED\<rparr>,
      fSet = True, fCompressedPubKey = True\<rparr> (1, 4) [0x50] = Some 3"
  "first_recid curve13
     \<lparr>pkey = \<lparr>priv_key = Some 3, pub_key = Some 3, conv_form = POINT_CONVERSION_UNCOMPRESSED\<rparr>,
      fSet = True, fCompressedPubKey = False\<rparr> (1, 4) [0x50] = Some 3"
  by (simp_all add: first_recid_def recovers_own_key_def curve13_recover_byte
        i2o_ECPublicKey_def curve13_sel curve13_point2oct_def curve13_xy_def
        EC_KEY_new_by_curve_name_def POINT_CONVERSION_COMPRESSED_def
        POINT_CONVERSION_UNCOMPRESSED_def del: One_nat_def)

lemma curve13_SignCompact:
  "SignCompact curve13 (Some (1, 4)) [0x50] [] (MakeNewKey curve13 3 True CKey_new)
     = Inr (True, 0x22 # be_bytes 32 1 @ be_bytes 32 4)"
  "SignCompact curve13 (Some (1, 4)) [0x50] [] (MakeNewKey curve13 3 False CKey_new)
     = Inr (True, 0x1e # be_bytes 32 1 @ be_bytes 32 4)"
proof -
  show "SignCompact curve13 (Some (1, 4)) [0x50] [] (MakeNewKey curve13 3 True CKey_new)
     = Inr (True, 0x22 # be_bytes 32 1 @ be_bytes 32 4)"
    unfolding curve13_key3(1)
    using curve13_point2oct_nonempty [of True]
    by (subst SignCompact_value [OF curve13_key3(2)])
       (simp_all add: curve13_first_recid_byte compact_signature_def del: One_nat_def)
  show "SignCompact curve13 (Some (1, 4)) [0x50] [] (MakeNewKey curve13 3 False CKey_new)
     = Inr (True, 0x1e # be_bytes 32 1 @ be_bytes 32 4)"
    unfolding curve13_key3u(1)
    using curve13_point2oct_nonempty [of False]
    by (subst SignCompact_value [OF curve13_key3u(2)])
       (simp_all add: curve13_first_recid_byte compact_signature_def del: One_nat_def)
qed

lemma curve13_signature:
  "ecdsa_signature curve13 3 (truncate_digest (grp_degree curve13) [0x50]) 2 8 1 (1, 4)"
proof -
  have e: "truncate_digest 4 [0x50] = 5"
    by (simp add: truncate_digest_def BN_bin2bn_def)
  show ?thesis
    by (simp add: ecdsa_signature_def curve13_sel e curve13_decompress curve13_point_mul
          inv_mod_2_7 Let_def del: One_nat_def)
qed

text \<open>
  Instances on the curve with seven points, for the key of the scalar 3 compressed and
  uncompressed, and the one-byte digest \<open>0x50\<close>, whose number is 5: the nonce 2 gives the
  point \<open>2 G\<close> = (8,5), hence \<open>r = 8 mod 7 = 1\<close> and \<open>s = 2\<^sup>-\<^sup>1 (5 + 1 \<cdot> 3) mod 7 = 4\<close>.
  Signing succeeds with the headers 34 and 30 (the recovery id is \<open>2 (8 div 7) + 1 = 3\<close>),
  the compact signatures are verified, and the keys recovered from them have the public
  key bytes of the signer, \<^verbatim>\<open>02 0b\<close> and \<^verbatim>\<open>04 0b 08\<close>.
\<close>

theorem compact_signature_roundtrip_witness:
  "SignCompact curve13 (Some (1, 4)) [0x50] [] (MakeNewKey curve13 3 True CKey_new)
     = Inr (True, 0x22 # be_bytes 32 1 @ be_bytes 32 4)
   \<and> VerifyCompact curve13 (MakeNewKey curve13 3 True CKey_new) [0x50]
     (0x22 # be_bytes 32 1 @ be_bytes 32 4) = Inr True
   \<and> GetPubKey curve13 (snd (SetCompactSignature curve13 [0x50]
        (0x22 # be_bytes 32 1 @ be_bytes 32 4) CKey_new)) = Inr [0x02, 0x0b]
   \<and> SignCompact curve13 (Some (1, 4)) [0x50] [] (MakeNewKey curve13 3 False CKey_new)
     = Inr (True, 0x1e # be_bytes 32 1 @ be_bytes 32 4)
   \<and> VerifyCompact curve13 (MakeNewKey curve13 3 False CKey_new) [0x50]
     (0x1e # be_bytes 32 1 @ be_bytes 32 4) = Inr True
   \<and> GetPubKey curve13 (snd (SetCompactSignature curve13 [0x50]
        (0x1e # be_bytes 32 1 @ be_bytes 32 4) CKey_new)) = Inr [0x04, 0x0b, 0x08]"
proof -
  let ?kc = "MakeNewKey curve13 3 True CKey_new" and ?ku = "MakeNewKey curve13 3 False CKey_new"
  have p: "grp_field curve13 \<le> 2 * grp_order curve13" "grp_order curve13 \<le> 2 ^ 256"
    by (simp_all add: curve13_sel)
  have m: "length [0x50 :: byte] \<le> (grp_degree curve13 + 7) div 8"
    by (simp add: curve13_sel)
  have c: "\<forall>P. grp_point2oct curve13 (if fCompressedPubKey ?kc then POINT_CONVERSION_COMPRESSED
                               else POINT_CONVERSION_UNCOMPRESSED) P \<noteq> []"
    "pub_key (pkey ?kc) = Some (point_mul curve13 3 (grp_generator curve13))"
    "conv_form (pkey ?kc) = (if fCompressedPubKey ?kc then POINT_CONVERSION_COMPRESSED
                               else POINT_CONVERSION_UNCOMPRESSED)"
    using curve13_point2oct_nonempty [of True]
    by (simp_all add: curve13_key3(1) curve13_point_mul curve13_sel)
  have u: "\<forall>P. grp_point2oct curve13 (if fCompressedPubKey ?ku then POINT_CONVERSION_COMPRESSED
                               else POINT_CONVERSION_UNCOMPRESSED) P \<noteq> []"
    "pub_key (pkey ?ku) = Some (point_mul curve13 3 (grp_generator curve13))"
    "conv_form (pkey ?ku) = (if fCompressedPubKey ?ku then POINT_CONVERSION_COMPRESSED
                               else POINT_CONVERSION_UNCOMPRESSED)"
    using curve13_point2oct_nonempty [of False]
    by (simp_all add: curve13_key3u(1) curve13_point_mul curve13_sel)
  have a: "VerifyCompact curve13 ?kc [0x50] (0x22 # be_bytes 32 1 @ be_bytes 32 4) = Inr True
    \<and> GetPubKey curve13 (snd (SetCompactSignature curve13 [0x50]
         (0x22 # be_bytes 32 1 @ be_bytes 32 4) CKey_new)) = GetPubKey curve13 ?kc"
  proof -
    from compact_signature_roundtrip [OF curve13_laws p c m curve13_signature, of "[]" CKey_new]
    obtain v where v: "SignCompact curve13 (Some (1, 4)) [0x50] [] ?kc = Inr (True, v)"
      and f: "VerifyCompact curve13 ?kc [0x50] v = Inr True"
        "GetPubKey curve13 (snd (SetCompactSignature curve13 [0x50] v CKey_new))
           = GetPubKey curve13 ?kc"
      by blast
    from v have "v = 0x22 # be_bytes 32 1 @ be_bytes 32 4"
      unfolding curve13_SignCompact(1) by simp
    with f show ?thesis
      by simp
  qed
  have b: "VerifyCompact curve13 ?ku [0x50] (0x1e # be_bytes 32 1 @ be_bytes 32 4) = Inr True
    \<and> GetPubKey curve13 (snd (SetCompactSignature curve13 [0x50]
         (0x1e # be_bytes 32 1 @ be_bytes 32 4) CKey_new)) = GetPubKey curve13 ?ku"
  proof -
    from compact_signature_roundtrip [OF curve13_laws p u m curve13_signature, of "[]" CKey_new]
    obtain v where v: "SignCompact curve13 (Some (1, 4)) [0x50] [] ?ku = Inr (True, v)"
      and f: "VerifyCompact curve13 ?ku [0x50] v = Inr True"
        "GetPubKey curve13 (snd (SetCompactSignature curve13 [0x50] v CKey_new))
           = GetPubKey curve13 ?ku"
      by blast
    from v have "v = 0x1e # be_bytes 32 1 @ be_bytes 32 4"
      unfolding curve13_SignCompact(2) by simp
    with f show ?thesis
      by simp
  qed
  from a b curve13_SignCompact show ?thesis
    by (simp add: curve13_key3 curve13_key3u del: One_nat_def)
qed

end
